theory Spec2Isabelle
  imports Complex_Main "HOL-Library.Word"
begin

section \<open>The ante handler of app/v1/auth/ante.go\<close>

text \<open>
  A shallow embedding of the transaction admission pipeline of
  \<^verbatim>\<open>src/app/v1/auth/ante.go\<close>. Go values become HOL values, a (value, sdk.Result)
  pair whose value is nil on error becomes a sum, a panic becomes a value of type
  \<open>panic\<close>, and the objects the code mutates through pointers (the gas meter, the
  account store, the fee collector) are passed in and returned.
\<close>

subsection \<open>Data\<close>

type_synonym bytes = "8 word list"
type_synonym Gas = "64 word"
type_synonym AccAddress = bytes

text \<open>
  Modelled from the spec: \<^verbatim>\<open>sdk.Coins\<close> (package types, not among the sources) is a
  list of (denomination, amount) pairs; the spec speaks of amounts per denomination, of a
  balance that would become negative, and of a fee that is nonzero.
\<close>

type_synonym Coin = "string \<times> int"
type_synonym Coins = "Coin list"

text \<open>
  The public keys of tendermint's crypto package. The code tells the key types apart
  by the name \<^verbatim>\<open>fmt.Sprintf("%T", pubkey)\<close> prints, so a key of any other Go type
  carries that name.
\<close>

datatype PubKey =
    PubKeyEd25519 bytes
  | PubKeySecp256k1 bytes
  | PubKeyMultisigThreshold nat "PubKey list"
  | PubKeyOther string bytes

text \<open>
  \<^verbatim>\<open>fmt.Sprintf(format, args...)\<close> is kept as the format string of the source with its
  arguments; \<^verbatim>\<open>AddrString a\<close> stands for \<^verbatim>\<open>a.String()\<close>.
\<close>

datatype arg = UintArg "64 word" | AddrArg AccAddress | CoinsArg Coins | StringArg string

datatype message = Text string | Sprintf string "arg list" | AddrString AccAddress

text \<open>The codes of the errors this file builds; any other code is \<open>CodeOther\<close>.\<close>

datatype CodeType =
    CodeOK
  | CodeInternal
  | CodeInvalidSequence
  | CodeUnauthorized
  | CodeInsufficientFunds
  | CodeInvalidPubKey
  | CodeUnknownAddress
  | CodeOutOfGas
  | CodeInsufficientFee
  | CodeOther nat

text \<open>
  \<^verbatim>\<open>sdk.Result\<close>: the fields this file reads or writes. \<open>Log\<close> holds the message of
  the error the result was made from.
\<close>

record Result =
  Code :: CodeType
  Log :: message
  GasWanted :: Gas
  GasUsed :: Gas

definition emptyResult :: Result where
  "emptyResult = \<lparr>Code = CodeOK, Log = Text [], GasWanted = 0, GasUsed = 0\<rparr>"

definition IsOK :: "Result \<Rightarrow> bool" where
  "IsOK res = (Code res = CodeOK)"

definition errResult :: "CodeType \<Rightarrow> message \<Rightarrow> Result" where
  "errResult c m = \<lparr>Code = c, Log = m, GasWanted = 0, GasUsed = 0\<rparr>"

definition ErrInternal :: "message \<Rightarrow> Result" where
  "ErrInternal = errResult CodeInternal"

definition ErrInvalidSequence :: "message \<Rightarrow> Result" where
  "ErrInvalidSequence = errResult CodeInvalidSequence"

definition ErrUnauthorized :: "message \<Rightarrow> Result" where
  "ErrUnauthorized = errResult CodeUnauthorized"

definition ErrInsufficientFunds :: "message \<Rightarrow> Result" where
  "ErrInsufficientFunds = errResult CodeInsufficientFunds"

definition ErrInvalidPubKey :: "message \<Rightarrow> Result" where
  "ErrInvalidPubKey = errResult CodeInvalidPubKey"

definition ErrUnknownAddress :: "message \<Rightarrow> Result" where
  "ErrUnknownAddress = errResult CodeUnknownAddress"

definition ErrOutOfGas :: "message \<Rightarrow> Result" where
  "ErrOutOfGas = errResult CodeOutOfGas"

definition ErrInsufficientFee :: "message \<Rightarrow> Result" where
  "ErrInsufficientFee = errResult CodeInsufficientFee"

text \<open>
  Modelled from the spec: an \<^verbatim>\<open>Account\<close> (an interface of package auth whose
  implementation is not among the sources) has an address, an optional public key, coin
  balances, a sequence number and an account number. The fields are named after the
  getters; the setters, which the code expects not to fail, update one field.
\<close>

record Account =
  GetAddress :: AccAddress
  GetPubKey :: "PubKey option"
  GetCoins :: Coins
  GetSequence :: "64 word"
  GetAccountNumber :: "64 word"

definition SetPubKey :: "Account \<Rightarrow> PubKey \<Rightarrow> Account" where
  "SetPubKey acc pk = acc\<lparr>GetPubKey := Some pk\<rparr>"

definition SetSequence :: "Account \<Rightarrow> 64 word \<Rightarrow> Account" where
  "SetSequence acc s = acc\<lparr>GetSequence := s\<rparr>"

definition SetCoins :: "Account \<Rightarrow> Coins \<Rightarrow> Account" where
  "SetCoins acc c = acc\<lparr>GetCoins := c\<rparr>"

record StdFee =
  Amount :: Coins
  Gas :: Gas

record StdSignature =
  PubKey :: "PubKey option"
  Signature :: bytes
  AccountNumber :: "64 word"
  Sequence :: "64 word"

text \<open>The panics of the Go runtime and of the gas meter that this code can raise.\<close>

datatype panic =
    ErrorOutOfGas string
  | IndexOutOfRange
  | TypeAssertionFailed
  | UnmarshalFailed

record Multisignature =
  BitArray :: "bool list"
  Sigs :: "bytes list"

type_synonym Msg = bytes

record StdTx =
  Msgs :: "Msg list"
  Fee :: StdFee
  Signatures :: "StdSignature list"
  Memo :: string

text \<open>\<^verbatim>\<open>tx.(StdTx)\<close> succeeds on \<open>StdTxOf\<close> only.\<close>

datatype Tx = StdTxOf StdTx | OtherTx

text \<open>
  Modelled from the spec: the gas meters of package types (not among the sources). A
  meter counts the raw gas consumed; the infinite meter has no limit, the meter with
  base has a limit, a logarithm base and a shift.
\<close>

datatype GasMeter =
    infiniteGasMeter Gas
  | gasMeterWithBase Gas Gas rat Gas

text \<open>
  What lies outside this file and is taken as a parameter: the transaction's
  \<^verbatim>\<open>ValidateBasic\<close> (the result of its error, if any) and \<^verbatim>\<open>GetSigners\<close>, the
  canonical sign bytes, the public keys' \<^verbatim>\<open>VerifyBytes\<close> and \<^verbatim>\<open>Address\<close>, the
  codec's decoding of a multisignature (\<open>None\<close> where \<^verbatim>\<open>MustUnmarshalBinaryBare\<close>
  panics), and the floating-point \<^verbatim>\<open>log(gas)/log(base)\<close> of the meter with base.
\<close>

record Env =
  ValidateBasic :: "StdTx \<Rightarrow> Result option"
  GetSigners :: "StdTx \<Rightarrow> AccAddress list"
  StdSignBytes :: "string \<Rightarrow> 64 word \<Rightarrow> 64 word \<Rightarrow> StdFee \<Rightarrow> Msg list \<Rightarrow> string \<Rightarrow> bytes"
  VerifyBytes :: "PubKey \<Rightarrow> bytes \<Rightarrow> bytes \<Rightarrow> bool"
  Address :: "PubKey \<Rightarrow> AccAddress"
  UnmarshalBinaryBare :: "bytes \<Rightarrow> Multisignature option"
  LogGas :: "rat \<Rightarrow> Gas \<Rightarrow> Gas"

text \<open>
  \<^verbatim>\<open>sdk.Context\<close>: what this file reads of it. \<open>GasMeter\<close> holds the state of the
  meter the context points to: a function that charges gas returns the meter, and its
  caller keeps it in the context. \<open>Signers\<close> is what \<^verbatim>\<open>WithSigners\<close> caches.
\<close>

record Context =
  BlockHeight :: int
  IsCheckTx :: bool
  MinimumFees :: Coins
  ChainID :: string
  GasMeter :: GasMeter
  Signers :: "Account list"

text \<open>
  Modelled from the spec: the account accessor (\<^verbatim>\<open>get_account\<close>, \<^verbatim>\<open>set_account\<close>)
  and the fee collector (\<^verbatim>\<open>add_collected_fees\<close>), whose keepers are not among the
  sources: a store of accounts by address and the fees collected so far.
\<close>

record Keepers =
  Accounts :: "AccAddress \<rightharpoonup> Account"
  CollectedFees :: Coins

subsection \<open>Coins\<close>

text \<open>
  Modelled from the spec: the operations of \<^verbatim>\<open>sdk.Coins\<close> this file calls, read per
  denomination. \<^verbatim>\<open>SafeSub\<close> subtracts and reports whether an amount of the difference is
  negative; \<^verbatim>\<open>IsZero\<close> holds when every amount is zero; \<^verbatim>\<open>IsAllGTE\<close> holds when the
  amount is at least the other's in every denomination.
\<close>

definition AmountOf :: "Coins \<Rightarrow> string \<Rightarrow> int" where
  "AmountOf coins denom = (case map_of coins denom of None \<Rightarrow> 0 | Some a \<Rightarrow> a)"

definition denoms :: "Coins \<Rightarrow> Coins \<Rightarrow> string list" where
  "denoms a b = remdups (map fst a @ map fst b)"

definition SafeSub :: "Coins \<Rightarrow> Coins \<Rightarrow> Coins \<times> bool" where
  "SafeSub a b =
     (let diff = map (\<lambda>d. (d, AmountOf a d - AmountOf b d)) (denoms a b)
      in (diff, list_ex (\<lambda>c. snd c < 0) diff))"

definition CoinsAdd :: "Coins \<Rightarrow> Coins \<Rightarrow> Coins" where
  "CoinsAdd a b = map (\<lambda>d. (d, AmountOf a d + AmountOf b d)) (denoms a b)"

definition IsZero :: "Coins \<Rightarrow> bool" where
  "IsZero coins = list_all (\<lambda>c. AmountOf coins (fst c) = 0) coins"

definition IsAllGTE :: "Coins \<Rightarrow> Coins \<Rightarrow> bool" where
  "IsAllGTE a b = list_all (\<lambda>d. AmountOf b d \<le> AmountOf a d) (denoms a b)"

subsection \<open>Keepers\<close>

definition GetAccount :: "Keepers \<Rightarrow> AccAddress \<Rightarrow> Account option" where
  "GetAccount K addr = Accounts K addr"

definition SetAccount :: "Keepers \<Rightarrow> Account \<Rightarrow> Keepers" where
  "SetAccount K acc = K\<lparr>Accounts := (Accounts K)(GetAddress acc \<mapsto> acc)\<rparr>"

definition AddCollectedFees :: "Keepers \<Rightarrow> Coins \<Rightarrow> Keepers" where
  "AddCollectedFees K amt = K\<lparr>CollectedFees := CoinsAdd (CollectedFees K) amt\<rparr>"

subsection \<open>Gas meters\<close>

definition ed25519VerifyCost :: Gas where
  "ed25519VerifyCost = 59"

definition secp256k1VerifyCost :: Gas where
  "secp256k1VerifyCost = 100"

definition gasBase :: rat where
  "gasBase = 102 / 100"

definition gasShift :: Gas where
  "gasShift = 285"

definition NewInfiniteGasMeter :: GasMeter where
  "NewInfiniteGasMeter = infiniteGasMeter 0"

definition NewGasMeterWithBase :: "Gas \<Rightarrow> rat \<Rightarrow> Gas \<Rightarrow> GasMeter" where
  "NewGasMeterWithBase limit base shift = gasMeterWithBase limit 0 base shift"

text \<open>
  Modelled from the spec: the gas reported is the raw amount while that is at most the
  shift and the logarithm beyond it; consuming gas raises the out-of-gas signal, with the
  place that consumed, when the meter with base is past its limit, and never on the
  infinite meter. The meter keeps what was consumed when it raises.
\<close>

fun rawConsumed :: "GasMeter \<Rightarrow> Gas" where
  "rawConsumed (infiniteGasMeter c) = c"
| "rawConsumed (gasMeterWithBase l c b s) = c"

fun GasConsumed :: "Env \<Rightarrow> GasMeter \<Rightarrow> Gas" where
  "GasConsumed env (infiniteGasMeter c) = c"
| "GasConsumed env (gasMeterWithBase l c b s) = (if c \<le> s then c else LogGas env b c)"

fun ConsumeGas :: "Env \<Rightarrow> GasMeter \<Rightarrow> Gas \<Rightarrow> string \<Rightarrow> (panic \<times> GasMeter) + GasMeter" where
  "ConsumeGas env (infiniteGasMeter c) amount descriptor = Inr (infiniteGasMeter (c + amount))"
| "ConsumeGas env (gasMeterWithBase l c b s) amount descriptor =
     (let meter = gasMeterWithBase l (c + amount) b s
      in if l < GasConsumed env meter then Inl (ErrorOutOfGas descriptor, meter) else Inr meter)"

definition setGasMeter :: "bool \<Rightarrow> Context \<Rightarrow> Gas \<Rightarrow> Context" where
  "setGasMeter simulate ctx gasLimit =
     (if simulate \<or> BlockHeight ctx = 0 then ctx\<lparr>GasMeter := NewInfiniteGasMeter\<rparr>
      else ctx\<lparr>GasMeter := NewGasMeterWithBase gasLimit gasBase gasShift\<rparr>)"

subsection \<open>Account number and sequence validation\<close>

text \<open>
  \<^verbatim>\<open>validateAccNumAndSequence\<close>: the loop over \<open>i\<close>, with the block height of the
  context. \<^verbatim>\<open>sigs[i]\<close> panics when \<open>sigs\<close> is shorter than \<open>accs\<close>.
\<close>

function validateAccNumAndSequence_loop ::
  "int \<Rightarrow> Account list \<Rightarrow> StdSignature list \<Rightarrow> nat \<Rightarrow> panic + Result" where
  "validateAccNumAndSequence_loop height accs sigs i =
     (if i < length accs then
        (if \<not> i < length sigs then Inl IndexOutOfRange
         else if height = 0 \<and> AccountNumber (sigs ! i) \<noteq> 0 then
           Inr (ErrInvalidSequence
             (Sprintf ''Invalid account number for BlockHeight == 0. Got %d, expected 0''
                [UintArg (AccountNumber (sigs ! i))]))
         else
           (let accnum = GetAccountNumber (accs ! i) in
            if height \<noteq> 0 \<and> accnum \<noteq> AccountNumber (sigs ! i) then
              Inr (ErrInvalidSequence
                (Sprintf ''Invalid account number. Got %d, expected %d''
                   [UintArg (AccountNumber (sigs ! i)), UintArg accnum]))
            else
              (let seq = GetSequence (accs ! i) in
               if seq \<noteq> Sequence (sigs ! i) then
                 Inr (ErrInvalidSequence
                   (Sprintf ''Invalid sequence. Got %d, expected %d''
                      [UintArg (Sequence (sigs ! i)), UintArg seq]))
               else validateAccNumAndSequence_loop height accs sigs (i + 1))))
      else Inr emptyResult)"
  by pat_completeness auto
termination
  by (relation "measure (\<lambda>(height, accs, sigs, i). length accs - i)") auto

declare validateAccNumAndSequence_loop.simps [simp del]

definition validateAccNumAndSequence :: "Context \<Rightarrow> Account list \<Rightarrow> StdSignature list \<Rightarrow> panic + Result" where
  "validateAccNumAndSequence ctx accs sigs =
     validateAccNumAndSequence_loop (BlockHeight ctx) accs sigs 0"

subsection \<open>Signature verification gas\<close>

text \<open>
  The name \<^verbatim>\<open>%T\<close> prints for a key, \<^verbatim>\<open>strings.ToLower\<close> on ASCII letters and
  \<^verbatim>\<open>strings.Contains\<close>.
\<close>

fun typeName :: "PubKey \<Rightarrow> string" where
  "typeName (PubKeyEd25519 k) = ''ed25519.PubKeyEd25519''"
| "typeName (PubKeySecp256k1 k) = ''secp256k1.PubKeySecp256k1''"
| "typeName (PubKeyMultisigThreshold k pubkeys) = ''multisig.PubKeyMultisigThreshold''"
| "typeName (PubKeyOther name k) = name"

definition toLowerChar :: "char \<Rightarrow> char" where
  "toLowerChar c =
     (let n = (of_char c :: nat) in if 65 \<le> n \<and> n \<le> 90 then char_of (n + 32) else c)"

definition ToLower :: "string \<Rightarrow> string" where
  "ToLower s = map toLowerChar s"

fun Contains :: "string \<Rightarrow> string \<Rightarrow> bool" where
  "Contains [] substr = (substr = [])"
| "Contains (c # s) substr = (take (length substr) (c # s) = substr \<or> Contains s substr)"

text \<open>
  \<^verbatim>\<open>BitArray.Size\<close> and \<^verbatim>\<open>BitArray.GetIndex\<close> of tendermint's bit array, on a list of
  bits.
\<close>

definition Size :: "bool list \<Rightarrow> nat" where
  "Size bA = length bA"

definition GetIndex :: "bool list \<Rightarrow> nat \<Rightarrow> bool" where
  "GetIndex bA i = (i < length bA \<and> bA ! i)"

lemma nth_size_less_size_list: "i < length xs \<Longrightarrow> f (xs ! i) < size_list f xs"
proof (induction xs arbitrary: i)
  case Nil
  then show ?case by simp
next
  case (Cons a xs)
  show ?case
  proof (cases i)
    case 0
    then show ?thesis by simp
  next
    case (Suc j)
    with Cons.prems have "j < length xs" by simp
    from Cons.IH [OF this] Suc show ?thesis by simp
  qed
qed

text \<open>
  \<^verbatim>\<open>consumeSignatureVerificationGas\<close> and \<^verbatim>\<open>consumeMultisignatureVerificationGas\<close>
  with its loop over \<open>i\<close> and \<open>sigIndex\<close>. The multisig key is passed as its threshold
  and its member keys. The loop discards the result of the member's charge;
  \<^verbatim>\<open>sig.Sigs[sigIndex]\<close> and \<^verbatim>\<open>pubkey.PubKeys[i]\<close> panic out of range.
\<close>

function consumeSignatureVerificationGas ::
    "Env \<Rightarrow> GasMeter \<Rightarrow> bytes \<Rightarrow> PubKey \<Rightarrow> (panic \<times> GasMeter) + (GasMeter \<times> Result)"
  and consumeMultisignatureVerificationGas ::
    "Env \<Rightarrow> GasMeter \<Rightarrow> Multisignature \<Rightarrow> nat \<times> PubKey list \<Rightarrow> (panic \<times> GasMeter) + GasMeter"
  and consumeMultisignatureVerificationGas_loop ::
    "Env \<Rightarrow> GasMeter \<Rightarrow> Multisignature \<Rightarrow> nat \<times> PubKey list \<Rightarrow> nat \<Rightarrow> nat \<Rightarrow>
       (panic \<times> GasMeter) + GasMeter"
where
  "consumeSignatureVerificationGas env meter sig pubkey =
     (let pubkeyType = ToLower (typeName pubkey) in
      if Contains pubkeyType ''ed25519'' then
        (case ConsumeGas env meter ed25519VerifyCost ''ante verify: ed25519'' of
           Inl p \<Rightarrow> Inl p
         | Inr meter' \<Rightarrow> Inr (meter', emptyResult))
      else if Contains pubkeyType ''secp256k1'' then
        (case ConsumeGas env meter secp256k1VerifyCost ''ante verify: secp256k1'' of
           Inl p \<Rightarrow> Inl p
         | Inr meter' \<Rightarrow> Inr (meter', emptyResult))
      else if Contains pubkeyType ''multisigthreshold'' then
        (case UnmarshalBinaryBare env sig of
           None \<Rightarrow> Inl (UnmarshalFailed, meter)
         | Some multisignature \<Rightarrow>
             (case pubkey of
                PubKeyMultisigThreshold k pubkeys \<Rightarrow>
                  (case consumeMultisignatureVerificationGas env meter multisignature (k, pubkeys) of
                     Inl p \<Rightarrow> Inl p
                   | Inr meter' \<Rightarrow> Inr (meter', emptyResult))
              | _ \<Rightarrow> Inl (TypeAssertionFailed, meter)))
      else
        Inr (meter, ErrInvalidPubKey
               (Sprintf ''unrecognized public key type: %s'' [StringArg pubkeyType])))"
| "consumeMultisignatureVerificationGas env meter sig pubkey =
     consumeMultisignatureVerificationGas_loop env meter sig pubkey 0 0"
| "consumeMultisignatureVerificationGas_loop env meter sig pubkey i sigIndex =
     (if i < Size (BitArray sig) then
        (if GetIndex (BitArray sig) i then
           (if sigIndex < length (Sigs sig) \<and> i < length (snd pubkey) then
              (case consumeSignatureVerificationGas env meter (Sigs sig ! sigIndex) (snd pubkey ! i) of
                 Inl p \<Rightarrow> Inl p
               | Inr (meter', res) \<Rightarrow>
                   consumeMultisignatureVerificationGas_loop env meter' sig pubkey (i + 1) (sigIndex + 1))
            else Inl (IndexOutOfRange, meter))
         else consumeMultisignatureVerificationGas_loop env meter sig pubkey (i + 1) sigIndex)
      else Inr meter)"
  by pat_completeness auto
termination
  by (relation "inv_image (less_than <*lex*> less_than <*lex*> less_than)
        (\<lambda>x. case x of
           Inl (env, meter, sig, pubkey) \<Rightarrow> (size pubkey, 0, 0)
         | Inr (Inl (env, meter, sig, pubkey)) \<Rightarrow> (size_list size (snd pubkey), 2, 0)
         | Inr (Inr (env, meter, sig, pubkey, i, sigIndex)) \<Rightarrow>
             (size_list size (snd pubkey), 1, Size (BitArray sig) - i))")
     (auto simp: nth_size_less_size_list)

declare consumeSignatureVerificationGas.simps [simp del]
declare consumeMultisignatureVerificationGas_loop.simps [simp del]

subsection \<open>Public keys and signatures\<close>

text \<open>
  \<^verbatim>\<open>dummySecp256k1Pubkey\<close>, as \<^verbatim>\<open>init\<close> fills it from the hexadecimal string.
\<close>

definition dummySecp256k1Pubkey :: PubKey where
  "dummySecp256k1Pubkey = PubKeySecp256k1
     [0x03, 0x5A, 0xD6, 0x81, 0x0A, 0x47, 0xF0, 0x73, 0x55, 0x3F, 0xF3,
        0x0D, 0x2F, 0xCC, 0x7E, 0x0D, 0x3B, 0x1C, 0x0B, 0x74, 0xB6, 0x1A,
        0x1A, 0xAA, 0x25, 0x82, 0x34, 0x40, 0x37, 0x15, 0x1E, 0x14, 0x3A]"

definition processPubKey :: "Env \<Rightarrow> Account \<Rightarrow> StdSignature \<Rightarrow> bool \<Rightarrow> Result + PubKey" where
  "processPubKey env acc sig simulate =
     (let pubKey = GetPubKey acc in
      if simulate then
        (case pubKey of
           None \<Rightarrow> Inr dummySecp256k1Pubkey
         | Some pk \<Rightarrow> Inr pk)
      else
        (case pubKey of
           None \<Rightarrow>
             (case PubKey sig of
                None \<Rightarrow> Inl (ErrInvalidPubKey (Text ''PubKey not found''))
              | Some pk \<Rightarrow>
                  if Address env pk \<noteq> GetAddress acc then
                    Inl (ErrInvalidPubKey
                      (Sprintf ''PubKey does not match Signer address %v''
                         [AddrArg (GetAddress acc)]))
                  else Inr pk)
         | Some pk \<Rightarrow> Inr pk))"

text \<open>
  \<^verbatim>\<open>processSig\<close> returns the meter it charged and either the result of the failure or
  the updated account.
\<close>

definition processSig ::
  "Env \<Rightarrow> Context \<Rightarrow> Account \<Rightarrow> StdSignature \<Rightarrow> bytes \<Rightarrow> bool \<Rightarrow>
     (panic \<times> GasMeter) + (GasMeter \<times> (Result + Account))" where
  "processSig env ctx acc sig signBytes simulate =
     (case processPubKey env acc sig simulate of
        Inl res \<Rightarrow> Inr (GasMeter ctx, Inl res)
      | Inr pubKey \<Rightarrow>
          (let acc1 = SetPubKey acc pubKey in
           case consumeSignatureVerificationGas env (GasMeter ctx) (Signature sig) pubKey of
             Inl p \<Rightarrow> Inl p
           | Inr (meter, res) \<Rightarrow>
               if \<not> IsOK res then Inr (meter, Inl res)
               else if \<not> simulate \<and> \<not> VerifyBytes env pubKey signBytes (Signature sig) then
                 Inr (meter, Inl (ErrUnauthorized (Text ''signature verification failed'')))
               else Inr (meter, Inr (SetSequence acc1 (GetSequence acc1 + 1)))))"

subsection \<open>Signer accounts, fees\<close>

fun getSignerAccs :: "Keepers \<Rightarrow> AccAddress list \<Rightarrow> Result + Account list" where
  "getSignerAccs K [] = Inr []"
| "getSignerAccs K (addr # addrs) =
     (case GetAccount K addr of
        None \<Rightarrow> Inl (ErrUnknownAddress (AddrString addr))
      | Some acc \<Rightarrow>
          (case getSignerAccs K addrs of
             Inl res \<Rightarrow> Inl res
           | Inr accs \<Rightarrow> Inr (acc # accs)))"

definition getSignBytesList :: "Env \<Rightarrow> string \<Rightarrow> StdTx \<Rightarrow> StdSignature list \<Rightarrow> bytes list" where
  "getSignBytesList env chainID stdTx stdSigs =
     map (\<lambda>s. StdSignBytes env chainID (AccountNumber s) (Sequence s)
                (Fee stdTx) (Msgs stdTx) (Memo stdTx)) stdSigs"

definition deductFees :: "Account \<Rightarrow> StdFee \<Rightarrow> Result + Account" where
  "deductFees acc fee =
     (let coins = GetCoins acc;
          feeAmount = Amount fee;
          (newCoins, hasNeg) = SafeSub coins feeAmount
      in if hasNeg then
           Inl (ErrInsufficientFunds
             (Sprintf ''account balance [%s] is not enough to cover fee [%s]''
                [CoinsArg coins, CoinsArg feeAmount]))
         else Inr (SetCoins acc newCoins))"

definition ensureSufficientMempoolFees :: "Context \<Rightarrow> StdTx \<Rightarrow> Result" where
  "ensureSufficientMempoolFees ctx stdTx =
     (if Gas (Fee stdTx) \<le> 0 then
        ErrInternal (Sprintf ''invalid gas supplied: %d'' [UintArg (Gas (Fee stdTx))])
      else if \<not> IsZero (MinimumFees ctx) \<and> \<not> IsAllGTE (Amount (Fee stdTx)) (MinimumFees ctx) then
        ErrInsufficientFee
          (Sprintf ''insufficient fee, got: %q required: %q''
             [CoinsArg (Amount (Fee stdTx)), CoinsArg (MinimumFees ctx)])
      else emptyResult)"

subsection \<open>The handler\<close>

text \<open>
  How the code under the deferred recovery ends: with a panic, or by returning the new
  context, a result and the abort flag. Both carry the keepers as they are then.
\<close>

datatype outcome =
    Panic panic Context Keepers
  | Return Context Result bool Keepers

text \<open>
  The loop over the signatures (lines 103 to 112): \<open>Inl\<close> when the handler ends in
  the loop, \<open>Inr\<close> with the context, the signer accounts and the keepers after it.
\<close>

function processSigs_loop ::
  "Env \<Rightarrow> Context \<Rightarrow> bool \<Rightarrow> StdSignature list \<Rightarrow> bytes list \<Rightarrow> nat \<Rightarrow> Account list \<Rightarrow> Keepers \<Rightarrow>
     outcome + (Context \<times> Account list \<times> Keepers)" where
  "processSigs_loop env newCtx simulate stdSigs signBytesList i signerAccs K =
     (if i < length stdSigs then
        (if \<not> (i < length signerAccs \<and> i < length signBytesList) then
           Inl (Panic IndexOutOfRange newCtx K)
         else
           (case processSig env newCtx (signerAccs ! i) (stdSigs ! i) (signBytesList ! i) simulate of
              Inl (p, meter) \<Rightarrow> Inl (Panic p (newCtx\<lparr>GasMeter := meter\<rparr>) K)
            | Inr (meter, Inl res) \<Rightarrow> Inl (Return (newCtx\<lparr>GasMeter := meter\<rparr>) res True K)
            | Inr (meter, Inr acc) \<Rightarrow>
                processSigs_loop env (newCtx\<lparr>GasMeter := meter\<rparr>) simulate stdSigs signBytesList
                  (i + 1) (signerAccs[i := acc]) (SetAccount K acc)))
      else Inr (newCtx, signerAccs, K))"
  by pat_completeness auto
termination
  by (relation "measure (\<lambda>(env, newCtx, simulate, stdSigs, signBytesList, i, signerAccs, K).
        length stdSigs - i)") auto

declare processSigs_loop.simps [simp del]

text \<open>
  The fee stage (lines 93 to 101): \<open>Inl\<close> when the handler ends there, \<open>Inr\<close> with
  the signer accounts and the keepers after it.
\<close>

definition deductFeeStage ::
  "Context \<Rightarrow> StdTx \<Rightarrow> Account list \<Rightarrow> Keepers \<Rightarrow> outcome + (Account list \<times> Keepers)" where
  "deductFeeStage newCtx stdTx signerAccs K =
     (if \<not> IsZero (Amount (Fee stdTx)) then
        (case signerAccs of
           [] \<Rightarrow> Inl (Panic IndexOutOfRange newCtx K)
         | acc0 # rest \<Rightarrow>
             (case deductFees acc0 (Fee stdTx) of
                Inl res \<Rightarrow> Inl (Return newCtx res True K)
              | Inr acc \<Rightarrow> Inr (signerAccs[0 := acc], AddCollectedFees K (Amount (Fee stdTx)))))
      else Inr (signerAccs, K))"

text \<open>
  The code after the deferred recovery is installed (lines 73 to 118). \<open>ctx\<close> is the
  handler's context, \<open>newCtx\<close> the one with the new gas meter.
\<close>

definition anteBody :: "Env \<Rightarrow> Keepers \<Rightarrow> Context \<Rightarrow> Context \<Rightarrow> StdTx \<Rightarrow> bool \<Rightarrow> outcome" where
  "anteBody env K ctx newCtx stdTx simulate =
     (case ValidateBasic env stdTx of
        Some err \<Rightarrow> Return newCtx err True K
      | None \<Rightarrow>
          (let stdSigs = Signatures stdTx;
               signerAddrs = GetSigners env stdTx;
               signBytesList = getSignBytesList env (ChainID newCtx) stdTx stdSigs
           in case getSignerAccs K signerAddrs of
                Inl res \<Rightarrow> Return newCtx res True K
              | Inr signerAccs \<Rightarrow>
                  (case validateAccNumAndSequence ctx signerAccs stdSigs of
                     Inl p \<Rightarrow> Panic p newCtx K
                   | Inr res \<Rightarrow>
                       if \<not> IsOK res then Return newCtx res True K
                       else
                         (case deductFeeStage newCtx stdTx signerAccs K of
                            Inl out \<Rightarrow> out
                          | Inr (signerAccs1, K1) \<Rightarrow>
                              (case processSigs_loop env newCtx simulate stdSigs signBytesList 0
                                      signerAccs1 K1 of
                                 Inl out \<Rightarrow> out
                               | Inr (newCtx2, signerAccs2, K2) \<Rightarrow>
                                   Return (newCtx2\<lparr>Signers := signerAccs2\<rparr>)
                                     (emptyResult\<lparr>GasWanted := Gas (Fee stdTx)\<rparr>) False K2)))))"

text \<open>
  What the handler gives its caller: a panic that propagates, or the returned context
  (\<open>None\<close> is the zero context of a named result never assigned), result and abort
  flag.
\<close>

datatype handler_outcome =
    Panics panic Keepers
  | Returns "Context option" Result bool Keepers

text \<open>
  The deferred function (lines 58 to 71): it recovers the out-of-gas panic and panics
  again with any other.
\<close>

definition recoverOutOfGas :: "Env \<Rightarrow> StdTx \<Rightarrow> outcome \<Rightarrow> handler_outcome" where
  "recoverOutOfGas env stdTx out =
     (case out of
        Return newCtx res abort K \<Rightarrow> Returns (Some newCtx) res abort K
      | Panic r newCtx K \<Rightarrow>
          (case r of
             ErrorOutOfGas descriptor \<Rightarrow>
               Returns (Some newCtx)
                 ((ErrOutOfGas (Sprintf ''out of gas in location: %v'' [StringArg descriptor]))
                    \<lparr>GasWanted := Gas (Fee stdTx),
                     GasUsed := GasConsumed env (GasMeter newCtx)\<rparr>)
                 True K
           | _ \<Rightarrow> Panics r K))"

text \<open>
  \<^verbatim>\<open>NewAnteHandler\<close>: the handler it returns, applied to the keepers, the context, the
  transaction and the simulate flag.
\<close>

definition NewAnteHandler :: "Env \<Rightarrow> Keepers \<Rightarrow> Context \<Rightarrow> Tx \<Rightarrow> bool \<Rightarrow> handler_outcome" where
  "NewAnteHandler env K ctx tx simulate =
     (case tx of
        OtherTx \<Rightarrow>
          Returns (Some (setGasMeter simulate ctx 0)) (ErrInternal (Text ''tx must be StdTx'')) True K
      | StdTxOf stdTx \<Rightarrow>
          if IsCheckTx ctx \<and> \<not> simulate \<and> \<not> IsOK (ensureSufficientMempoolFees ctx stdTx) then
            Returns None (ensureSufficientMempoolFees ctx stdTx) True K
          else
            (let newCtx = setGasMeter simulate ctx (Gas (Fee stdTx))
             in recoverOutOfGas env stdTx (anteBody env K ctx newCtx stdTx simulate)))"

subsection \<open>What the specification asks of a signer\<close>

text \<open>
  The rule of the specification for one signer at a block height: at height 0 the claimed
  account number is 0, at any other height it is the stored account number; the claimed
  sequence is the stored sequence. \<open>violationMessage\<close> is the message of the rule that
  is broken first.
\<close>

definition accNumOK :: "int \<Rightarrow> Account \<Rightarrow> StdSignature \<Rightarrow> bool" where
  "accNumOK height acc sig =
     (if height = 0 then AccountNumber sig = 0 else AccountNumber sig = GetAccountNumber acc)"

definition sequenceOK :: "Account \<Rightarrow> StdSignature \<Rightarrow> bool" where
  "sequenceOK acc sig = (Sequence sig = GetSequence acc)"

definition signerOK :: "int \<Rightarrow> Account \<Rightarrow> StdSignature \<Rightarrow> bool" where
  "signerOK height acc sig = (accNumOK height acc sig \<and> sequenceOK acc sig)"

definition violationMessage :: "int \<Rightarrow> Account \<Rightarrow> StdSignature \<Rightarrow> message" where
  "violationMessage height acc sig =
     (if \<not> accNumOK height acc sig then
        (if height = 0 then
           Sprintf ''Invalid account number for BlockHeight == 0. Got %d, expected 0''
             [UintArg (AccountNumber sig)]
         else
           Sprintf ''Invalid account number. Got %d, expected %d''
             [UintArg (AccountNumber sig), UintArg (GetAccountNumber acc)])
      else
        Sprintf ''Invalid sequence. Got %d, expected %d''
          [UintArg (Sequence sig), UintArg (GetSequence acc)])"

subsection \<open>An environment to run the code in\<close>

text \<open>
  A concrete environment for the examples: every transaction is valid, a message is the
  address of its signer, the sign bytes are the account number and the sequence, a key
  accepts a signature that repeats the sign bytes, a key's address is its bytes, and a
  multisignature is encoded as the number of bits, the bits, and each partial signature
  after its length.
\<close>

fun decodeChunks :: "bytes \<Rightarrow> bytes list option" where
  "decodeChunks [] = Some []"
| "decodeChunks (l # rest) =
     (if length rest < unat l then None
      else (case decodeChunks (drop (unat l) rest) of
              None \<Rightarrow> None
            | Some cs \<Rightarrow> Some (take (unat l) rest # cs)))"

definition decodeMultisignature :: "bytes \<Rightarrow> Multisignature option" where
  "decodeMultisignature bz =
     (case bz of
        [] \<Rightarrow> None
      | n # rest \<Rightarrow>
          if length rest < unat n then None
          else (case decodeChunks (drop (unat n) rest) of
                  None \<Rightarrow> None
                | Some cs \<Rightarrow> Some \<lparr>BitArray = map (\<lambda>b. b \<noteq> 0) (take (unat n) rest), Sigs = cs\<rparr>))"

definition exampleEnv :: Env where
  "exampleEnv =
     \<lparr>ValidateBasic = (\<lambda>tx. None),
      GetSigners = (\<lambda>tx. Msgs tx),
      StdSignBytes = (\<lambda>chainID accnum seq fee msgs memo. [ucast accnum, ucast seq]),
      VerifyBytes = (\<lambda>pk msg sig. sig = msg),
      Address = (\<lambda>pk. case pk of PubKeyEd25519 k \<Rightarrow> k | PubKeySecp256k1 k \<Rightarrow> k
                       | PubKeyMultisigThreshold k pks \<Rightarrow> [] | PubKeyOther n k \<Rightarrow> k),
      UnmarshalBinaryBare = decodeMultisignature,
      LogGas = (\<lambda>base gas. gas)\<rparr>"

subsection \<open>What the specification asks of the verification gas\<close>

text \<open>
  The member keys whose inclusion bit is set, in bitmap order.
\<close>

definition included :: "bool list \<Rightarrow> 'a list \<Rightarrow> 'a list" where
  "included bits xs = map snd (filter fst (zip bits xs))"

lemma set_included_subset: "set (included bits xs) \<subseteq> set xs"
  by (auto simp: included_def dest: set_zip_rightD)

lemma size_included_member:
  "(pk, s) \<in> set (zip (included bits pks) sigs) \<Longrightarrow> size pk < Suc (size_list size pks)"
proof -
  assume "(pk, s) \<in> set (zip (included bits pks) sigs)"
  then have "pk \<in> set pks"
    using set_included_subset [of bits pks] by (auto dest: set_zip_leftD)
  then have "size pk \<le> size_list size pks"
    by (rule size_list_estimation') simp
  then show ?thesis by simp
qed

text \<open>
  The verification cost of a key for a signature, as the specification words it: a fixed
  cost for a single key (by the name of its type), and for a threshold multisig the sum,
  over the members whose bit is set, of the member's own cost for its partial signature,
  the partial signatures being taken in bitmap order. A key of an unrecognized type costs
  nothing.
\<close>

function keyCost :: "Env \<Rightarrow> bytes \<Rightarrow> PubKey \<Rightarrow> nat" where
  "keyCost env sig (PubKeyEd25519 k) = 59"
| "keyCost env sig (PubKeySecp256k1 k) = 100"
| "keyCost env sig (PubKeyMultisigThreshold k pks) =
     (case UnmarshalBinaryBare env sig of
        None \<Rightarrow> 0
      | Some ms \<Rightarrow>
          sum_list (map (\<lambda>(pk, s). keyCost env s pk)
                      (zip (included (BitArray ms) pks) (Sigs ms))))"
| "keyCost env sig (PubKeyOther name k) =
     (if Contains (ToLower name) ''ed25519'' then 59
      else if Contains (ToLower name) ''secp256k1'' then 100
      else 0)"
  by pat_completeness auto
termination
  by (relation "measure (\<lambda>(env, sig, pk). size pk)") (auto dest: size_included_member)

text \<open>
  A signature is well formed for a key when charging for it meets no structural failure:
  a multisignature decodes, every set bit has a member key and a partial signature, and
  the partial signatures are well formed for their members.
\<close>

function sigWellFormed :: "Env \<Rightarrow> bytes \<Rightarrow> PubKey \<Rightarrow> bool" where
  "sigWellFormed env sig (PubKeyEd25519 k) = True"
| "sigWellFormed env sig (PubKeySecp256k1 k) = True"
| "sigWellFormed env sig (PubKeyMultisigThreshold k pks) =
     (case UnmarshalBinaryBare env sig of
        None \<Rightarrow> False
      | Some ms \<Rightarrow>
          length (filter id (BitArray ms)) \<le> length (Sigs ms) \<and>
          length (included (BitArray ms) pks) = length (filter id (BitArray ms)) \<and>
          list_all (\<lambda>(pk, s). sigWellFormed env s pk)
            (zip (included (BitArray ms) pks) (Sigs ms)))"
| "sigWellFormed env sig (PubKeyOther name k) =
     (Contains (ToLower name) ''ed25519'' \<or> Contains (ToLower name) ''secp256k1'' \<or>
      \<not> Contains (ToLower name) ''multisigthreshold'')"
  by pat_completeness auto
termination
  by (relation "measure (\<lambda>(env, sig, pk). size pk)") (auto dest: size_included_member)

text \<open>
  The same two notions for the members of a multisignature from bit \<open>i\<close> and partial
  signature \<open>si\<close> on: what the loop of \<^verbatim>\<open>consumeMultisignatureVerificationGas\<close> has
  still to charge.
\<close>

definition membersCost :: "Env \<Rightarrow> Multisignature \<Rightarrow> PubKey list \<Rightarrow> nat \<Rightarrow> nat \<Rightarrow> nat" where
  "membersCost env ms pks i si =
     sum_list (map (\<lambda>(pk, s). keyCost env s pk)
       (zip (included (drop i (BitArray ms)) (drop i pks)) (drop si (Sigs ms))))"

definition membersWellFormed :: "Env \<Rightarrow> Multisignature \<Rightarrow> PubKey list \<Rightarrow> nat \<Rightarrow> nat \<Rightarrow> bool" where
  "membersWellFormed env ms pks i si =
     (length (filter id (drop i (BitArray ms))) \<le> length (drop si (Sigs ms)) \<and>
      length (included (drop i (BitArray ms)) (drop i pks)) =
        length (filter id (drop i (BitArray ms))) \<and>
      list_all (\<lambda>(pk, s). sigWellFormed env s pk)
        (zip (included (drop i (BitArray ms)) (drop i pks)) (drop si (Sigs ms))))"

text \<open>The cost of a single key, and the keys that have one.\<close>

fun singleKeyCost :: "PubKey \<Rightarrow> nat" where
  "singleKeyCost (PubKeyEd25519 k) = 59"
| "singleKeyCost (PubKeySecp256k1 k) = 100"
| "singleKeyCost pk = 0"

fun isSingleKey :: "PubKey \<Rightarrow> bool" where
  "isSingleKey (PubKeyEd25519 k) = True"
| "isSingleKey (PubKeySecp256k1 k) = True"
| "isSingleKey pk = False"

text \<open>A type name none of the three cases of the cost lookup recognizes.\<close>

definition unrecognized :: "string \<Rightarrow> bool" where
  "unrecognized name =
     (\<not> Contains (ToLower name) ''ed25519'' \<and> \<not> Contains (ToLower name) ''secp256k1'' \<and>
      \<not> Contains (ToLower name) ''multisigthreshold'')"

text \<open>Keys, keepers, a context and a transaction for the examples.\<close>

definition exampleInnerKey :: PubKey where
  "exampleInnerKey =
     PubKeyMultisigThreshold 1 [PubKeySecp256k1 [4], PubKeyOther ''sr25519.PubKeySr25519'' [5]]"

definition exampleMultisigKey :: PubKey where
  "exampleMultisigKey =
     PubKeyMultisigThreshold 2 [PubKeyEd25519 [1], PubKeySecp256k1 [2], PubKeySecp256k1 [3]]"

definition exampleMultisigKeepers :: Keepers where
  "exampleMultisigKeepers =
     \<lparr>Accounts = [[1] \<mapsto> \<lparr>GetAddress = [1], GetPubKey = Some exampleMultisigKey,
                            GetCoins = [(''iris'', 100)], GetSequence = 3,
                            GetAccountNumber = 0\<rparr>],
      CollectedFees = []\<rparr>"

definition exampleContext :: Context where
  "exampleContext =
     \<lparr>BlockHeight = 7, IsCheckTx = False, MinimumFees = [], ChainID = ''iris'',
      GasMeter = infiniteGasMeter 0, Signers = []\<rparr>"

definition exampleTx :: "bytes \<Rightarrow> StdTx" where
  "exampleTx sig =
     \<lparr>Msgs = [[1]], Fee = \<lparr>Amount = [(''iris'', 10)], Gas = 50000\<rparr>,
      Signatures = [\<lparr>PubKey = None, Signature = sig, AccountNumber = 0, Sequence = 3\<rparr>],
      Memo = []\<rparr>"

definition exampleKeepers :: Keepers where
  "exampleKeepers =
     \<lparr>Accounts = [[1] \<mapsto> \<lparr>GetAddress = [1], GetPubKey = Some (PubKeySecp256k1 [1]),
                            GetCoins = [(''iris'', 100)], GetSequence = 3,
                            GetAccountNumber = 0\<rparr>],
      CollectedFees = []\<rparr>"

subsection \<open>What the specification asks of the account store\<close>

text \<open>The store keeps every account under its own address.\<close>

definition storeWellFormed :: "Keepers \<Rightarrow> bool" where
  "storeWellFormed K = (\<forall>a acc. Accounts K a = Some acc \<longrightarrow> GetAddress acc = a)"

subsection \<open>The minimum-fee floor of a context\<close>

text \<open>
  An outcome with the minimum-fee floor of the context it carries replaced: used to say
  that the floor has no other influence on the outcome.
\<close>

fun outcomeWithMinimumFees :: "Coins \<Rightarrow> outcome \<Rightarrow> outcome" where
  "outcomeWithMinimumFees minFees (Panic p c K) = Panic p (c\<lparr>MinimumFees := minFees\<rparr>) K"
| "outcomeWithMinimumFees minFees (Return c res abort K) =
     Return (c\<lparr>MinimumFees := minFees\<rparr>) res abort K"

fun handlerWithMinimumFees :: "Coins \<Rightarrow> handler_outcome \<Rightarrow> handler_outcome" where
  "handlerWithMinimumFees minFees (Panics p K) = Panics p K"
| "handlerWithMinimumFees minFees (Returns c res abort K) =
     Returns (map_option (\<lambda>c. c\<lparr>MinimumFees := minFees\<rparr>) c) res abort K"

section \<open>Properties\<close>

subsection \<open>Account number and sequence validation\<close>

lemma validate_loop_ok:
  assumes "length accs \<le> length sigs"
    and "\<forall>i. k \<le> i \<and> i < length accs \<longrightarrow> signerOK h (accs ! i) (sigs ! i)"
  shows "validateAccNumAndSequence_loop h accs sigs k = Inr emptyResult"
  using assms
proof (induction h accs sigs k rule: validateAccNumAndSequence_loop.induct)
  case (1 height accs sigs i)
  show ?case
  proof (cases "i < length accs")
    case False
    then show ?thesis by (simp add: validateAccNumAndSequence_loop.simps)
  next
    case True
    with "1.prems" have ok: "signerOK height (accs ! i) (sigs ! i)"
      and il: "i < length sigs" by auto
    have rest: "validateAccNumAndSequence_loop height accs sigs (i + 1) = Inr emptyResult"
      using True il ok "1.prems"
      by (intro "1.IH") (auto simp: signerOK_def accNumOK_def sequenceOK_def split: if_splits)
    show ?thesis
      using True il ok rest
      by (subst validateAccNumAndSequence_loop.simps)
         (auto simp: signerOK_def accNumOK_def sequenceOK_def Let_def split: if_splits)
  qed
qed

lemma validate_loop_first:
  assumes "k \<le> n" "n < length accs" "n < length sigs"
    and "\<forall>i. k \<le> i \<and> i < n \<longrightarrow> signerOK h (accs ! i) (sigs ! i)"
    and "\<not> signerOK h (accs ! n) (sigs ! n)"
  shows "validateAccNumAndSequence_loop h accs sigs k =
           Inr (ErrInvalidSequence (violationMessage h (accs ! n) (sigs ! n)))"
  using assms
proof (induction h accs sigs k rule: validateAccNumAndSequence_loop.induct)
  case (1 height accs sigs i)
  from "1.prems" have il: "i < length accs" "i < length sigs" by auto
  show ?case
  proof (cases "i = n")
    case True
    then show ?thesis
      using il "1.prems"(5)
      by (subst validateAccNumAndSequence_loop.simps)
         (auto simp: signerOK_def accNumOK_def sequenceOK_def violationMessage_def Let_def
               split: if_splits)
  next
    case False
    with "1.prems" have lt: "i < n" by simp
    with "1.prems" have ok: "signerOK height (accs ! i) (sigs ! i)"
      by auto
    have rest: "validateAccNumAndSequence_loop height accs sigs (i + 1) =
           Inr (ErrInvalidSequence (violationMessage height (accs ! n) (sigs ! n)))"
      using il ok lt "1.prems"
      by (intro "1.IH") (auto simp: signerOK_def accNumOK_def sequenceOK_def split: if_splits)
    show ?thesis
      using il ok rest
      by (subst validateAccNumAndSequence_loop.simps)
         (auto simp: signerOK_def accNumOK_def sequenceOK_def Let_def split: if_splits)
  qed
qed

text \<open>
  C1. Given a signature for every signer, \<^verbatim>\<open>validateAccNumAndSequence\<close> checks the
  signers in order: at block height 0 the claimed account number must be 0, at any other
  height it must be the stored account number, and the claimed sequence must be the stored
  sequence. When every signer passes, the result is the OK result. Otherwise the result is
  the invalid-sequence error of the first signer that fails, and its message carries the
  claimed value (got) and the expected value: 0 at height 0, else the stored account
  number, or the stored sequence.
\<close>

theorem validateAccNumAndSequence_first_violation:
  "(length accs \<le> length sigs \<and>
      (\<forall>i<length accs. signerOK (BlockHeight ctx) (accs ! i) (sigs ! i)) \<longrightarrow>
      validateAccNumAndSequence ctx accs sigs = Inr emptyResult \<and> IsOK emptyResult)
   \<and> (\<forall>n. n < length accs \<and> n < length sigs \<and>
         (\<forall>i<n. signerOK (BlockHeight ctx) (accs ! i) (sigs ! i)) \<and>
         \<not> signerOK (BlockHeight ctx) (accs ! n) (sigs ! n) \<longrightarrow>
         validateAccNumAndSequence ctx accs sigs =
           Inr (ErrInvalidSequence (violationMessage (BlockHeight ctx) (accs ! n) (sigs ! n))) \<and>
         Code (ErrInvalidSequence (violationMessage (BlockHeight ctx) (accs ! n) (sigs ! n)))
           = CodeInvalidSequence)"
proof (intro conjI impI allI)
  assume "length accs \<le> length sigs \<and>
      (\<forall>i<length accs. signerOK (BlockHeight ctx) (accs ! i) (sigs ! i))"
  then show "validateAccNumAndSequence ctx accs sigs = Inr emptyResult"
    unfolding validateAccNumAndSequence_def by (intro validate_loop_ok) auto
next
  show "IsOK emptyResult" by (simp add: IsOK_def emptyResult_def)
next
  fix n
  assume "n < length accs \<and> n < length sigs \<and>
         (\<forall>i<n. signerOK (BlockHeight ctx) (accs ! i) (sigs ! i)) \<and>
         \<not> signerOK (BlockHeight ctx) (accs ! n) (sigs ! n)"
  then show "validateAccNumAndSequence ctx accs sigs =
           Inr (ErrInvalidSequence (violationMessage (BlockHeight ctx) (accs ! n) (sigs ! n)))"
    unfolding validateAccNumAndSequence_def by (intro validate_loop_first) auto
next
  fix n
  show "Code (ErrInvalidSequence (violationMessage (BlockHeight ctx) (accs ! n) (sigs ! n)))
           = CodeInvalidSequence"
    by (simp add: ErrInvalidSequence_def errResult_def)
qed

theorem validateAccNumAndSequence_first_violation_witness:
  "validateAccNumAndSequence
     \<lparr>BlockHeight = 7, IsCheckTx = False, MinimumFees = [], ChainID = ''iris'',
      GasMeter = infiniteGasMeter 0, Signers = []\<rparr>
     [\<lparr>GetAddress = [1], GetPubKey = None, GetCoins = [], GetSequence = 3,
       GetAccountNumber = 2\<rparr>,
      \<lparr>GetAddress = [2], GetPubKey = None, GetCoins = [], GetSequence = 4,
       GetAccountNumber = 9\<rparr>]
     [\<lparr>PubKey = None, Signature = [], AccountNumber = 2, Sequence = 3\<rparr>,
      \<lparr>PubKey = None, Signature = [], AccountNumber = 9, Sequence = 5\<rparr>]
   = Inr (ErrInvalidSequence
            (Sprintf ''Invalid sequence. Got %d, expected %d'' [UintArg 5, UintArg 4]))"
proof -
  let ?ctx = "\<lparr>BlockHeight = 7, IsCheckTx = False, MinimumFees = [], ChainID = ''iris'',
      GasMeter = infiniteGasMeter 0, Signers = []\<rparr>"
  let ?accs = "[\<lparr>GetAddress = [1], GetPubKey = None, GetCoins = [], GetSequence = 3,
       GetAccountNumber = 2\<rparr>,
      \<lparr>GetAddress = [2], GetPubKey = None, GetCoins = [], GetSequence = 4,
       GetAccountNumber = 9\<rparr>]"
  let ?sigs = "[\<lparr>PubKey = None, Signature = [], AccountNumber = 2, Sequence = 3\<rparr>,
      \<lparr>PubKey = None, Signature = [], AccountNumber = 9, Sequence = 5\<rparr>]"
  have first: "\<forall>i<(1::nat). signerOK (BlockHeight ?ctx) (?accs ! i) (?sigs ! i)"
    by (simp add: signerOK_def accNumOK_def sequenceOK_def)
  have second: "\<not> signerOK (BlockHeight ?ctx) (?accs ! 1) (?sigs ! 1)"
    by (simp add: signerOK_def accNumOK_def sequenceOK_def)
  from validateAccNumAndSequence_first_violation [of ?accs ?sigs ?ctx, THEN conjunct2, rule_format, of 1]
    first second
  show ?thesis
    by (simp add: violationMessage_def accNumOK_def)
qed

subsection \<open>Public key resolution\<close>

text \<open>
  C7. When not simulating, \<^verbatim>\<open>processPubKey\<close> returns the account's stored key if there
  is one. Otherwise it takes the key of the signature entry, and returns it only when the
  address derived from that key is the account's address: a different address gives an
  invalid-public-key error, and no key in the account and none in the signature entry
  gives the invalid-public-key error "PubKey not found".
\<close>

theorem processPubKey_not_simulating:
  "(GetPubKey acc = Some pk \<longrightarrow> processPubKey env acc sig False = Inr pk)
   \<and> (GetPubKey acc = None \<and> PubKey sig = Some pk \<and> Address env pk = GetAddress acc \<longrightarrow>
        processPubKey env acc sig False = Inr pk)
   \<and> (GetPubKey acc = None \<and> PubKey sig = Some pk \<and> Address env pk \<noteq> GetAddress acc \<longrightarrow>
        processPubKey env acc sig False =
          Inl (ErrInvalidPubKey
                 (Sprintf ''PubKey does not match Signer address %v'' [AddrArg (GetAddress acc)])))
   \<and> (GetPubKey acc = None \<and> PubKey sig = None \<longrightarrow>
        processPubKey env acc sig False = Inl (ErrInvalidPubKey (Text ''PubKey not found'')))
   \<and> Code (ErrInvalidPubKey m) = CodeInvalidPubKey"
  by (simp add: processPubKey_def ErrInvalidPubKey_def errResult_def)

theorem processPubKey_not_simulating_witness:
  "processPubKey exampleEnv
     \<lparr>GetAddress = [1], GetPubKey = Some (PubKeyEd25519 [7]), GetCoins = [], GetSequence = 0,
      GetAccountNumber = 0\<rparr>
     \<lparr>PubKey = Some (PubKeyEd25519 [9]), Signature = [], AccountNumber = 0, Sequence = 0\<rparr> False
     = Inr (PubKeyEd25519 [7])
   \<and> processPubKey exampleEnv
     \<lparr>GetAddress = [1], GetPubKey = None, GetCoins = [], GetSequence = 0, GetAccountNumber = 0\<rparr>
     \<lparr>PubKey = Some (PubKeyEd25519 [1]), Signature = [], AccountNumber = 0, Sequence = 0\<rparr> False
     = Inr (PubKeyEd25519 [1])
   \<and> processPubKey exampleEnv
     \<lparr>GetAddress = [1], GetPubKey = None, GetCoins = [], GetSequence = 0, GetAccountNumber = 0\<rparr>
     \<lparr>PubKey = Some (PubKeyEd25519 [9]), Signature = [], AccountNumber = 0, Sequence = 0\<rparr> False
     = Inl (ErrInvalidPubKey (Sprintf ''PubKey does not match Signer address %v'' [AddrArg [1]]))
   \<and> processPubKey exampleEnv
     \<lparr>GetAddress = [1], GetPubKey = None, GetCoins = [], GetSequence = 0, GetAccountNumber = 0\<rparr>
     \<lparr>PubKey = None, Signature = [], AccountNumber = 0, Sequence = 0\<rparr> False
     = Inl (ErrInvalidPubKey (Text ''PubKey not found''))"
proof -
  let ?stored = "\<lparr>GetAddress = [1], GetPubKey = Some (PubKeyEd25519 [7]), GetCoins = [],
      GetSequence = 0, GetAccountNumber = 0\<rparr>"
  let ?fresh = "\<lparr>GetAddress = [1], GetPubKey = None, GetCoins = [], GetSequence = 0,
      GetAccountNumber = 0\<rparr>"
  let ?sig9 = "\<lparr>PubKey = Some (PubKeyEd25519 [9]), Signature = [], AccountNumber = 0,
      Sequence = 0\<rparr>"
  let ?sig1 = "\<lparr>PubKey = Some (PubKeyEd25519 [1]), Signature = [], AccountNumber = 0,
      Sequence = 0\<rparr>"
  let ?sig0 = "\<lparr>PubKey = None, Signature = [], AccountNumber = 0, Sequence = 0\<rparr>"
  have a: "Address exampleEnv (PubKeyEd25519 [1]) = GetAddress ?fresh"
    and b: "Address exampleEnv (PubKeyEd25519 [9]) \<noteq> GetAddress ?fresh"
    by (simp_all add: exampleEnv_def)
  from processPubKey_not_simulating [of ?stored "PubKeyEd25519 [7]" exampleEnv ?sig9]
  have 1: "processPubKey exampleEnv ?stored ?sig9 False = Inr (PubKeyEd25519 [7])" by simp
  from processPubKey_not_simulating [of ?fresh "PubKeyEd25519 [1]" exampleEnv ?sig1] a
  have 2: "processPubKey exampleEnv ?fresh ?sig1 False = Inr (PubKeyEd25519 [1])" by simp
  from processPubKey_not_simulating [of ?fresh "PubKeyEd25519 [9]" exampleEnv ?sig9] b
  have 3: "processPubKey exampleEnv ?fresh ?sig9 False =
      Inl (ErrInvalidPubKey (Sprintf ''PubKey does not match Signer address %v'' [AddrArg [1]]))"
    by simp
  from processPubKey_not_simulating [of ?fresh undefined exampleEnv ?sig0]
  have 4: "processPubKey exampleEnv ?fresh ?sig0 False =
      Inl (ErrInvalidPubKey (Text ''PubKey not found''))" by simp
  from 1 2 3 4 show ?thesis by simp
qed

subsection \<open>Signature verification gas\<close>


lemma ToLower_names:
  "ToLower ''ed25519.PubKeyEd25519'' = ''ed25519.pubkeyed25519''"
  "ToLower ''secp256k1.PubKeySecp256k1'' = ''secp256k1.pubkeysecp256k1''"
  "ToLower ''multisig.PubKeyMultisigThreshold'' = ''multisig.pubkeymultisigthreshold''"
  by code_simp+

lemma included_simps [simp]:
  "included [] xs = []"
  "included bs [] = []"
  "included (True # bs) (x # xs) = x # included bs xs"
  "included (False # bs) (x # xs) = included bs xs"
  by (simp_all add: included_def)

lemma included_False_tl: "included (False # bs) xs = included bs (tl xs)"
  by (cases xs) simp_all

lemma ConsumeGas_rawConsumed:
  "ConsumeGas env m a d = Inr m' \<Longrightarrow> rawConsumed m' = rawConsumed m + a"
  by (cases m) (auto simp: Let_def split: if_splits)

lemma membersCost_end: "length (BitArray ms) \<le> i \<Longrightarrow> membersCost env ms pks i si = 0"
  by (simp add: membersCost_def)

lemma membersCost_skip:
  assumes "i < length (BitArray ms)" "\<not> BitArray ms ! i"
  shows "membersCost env ms pks i si = membersCost env ms pks (Suc i) si"
proof -
  from assms have "drop i (BitArray ms) = False # drop (Suc i) (BitArray ms)"
    by (metis Cons_nth_drop_Suc)
  then show ?thesis
    by (simp add: membersCost_def included_False_tl drop_Suc tl_drop)
qed

lemma membersCost_take:
  assumes "i < length (BitArray ms)" "BitArray ms ! i" "si < length (Sigs ms)" "i < length pks"
  shows "membersCost env ms pks i si =
           keyCost env (Sigs ms ! si) (pks ! i) + membersCost env ms pks (Suc i) (Suc si)"
proof -
  from assms have "drop i (BitArray ms) = True # drop (Suc i) (BitArray ms)"
    "drop i pks = pks ! i # drop (Suc i) pks"
    "drop si (Sigs ms) = Sigs ms ! si # drop (Suc si) (Sigs ms)"
    by (metis Cons_nth_drop_Suc)+
  then show ?thesis
    by (simp add: membersCost_def)
qed

lemma keyCost_multisig:
  "UnmarshalBinaryBare env sig = Some ms \<Longrightarrow>
   keyCost env sig (PubKeyMultisigThreshold k pks) = membersCost env ms pks 0 0"
  by (simp add: membersCost_def)

lemma consumeSig_ed25519:
  "consumeSignatureVerificationGas env meter sig (PubKeyEd25519 k) =
     (case ConsumeGas env meter ed25519VerifyCost ''ante verify: ed25519'' of
        Inl p \<Rightarrow> Inl p
      | Inr meter' \<Rightarrow> Inr (meter', emptyResult))"
  by (subst consumeSignatureVerificationGas.simps) (simp add: ToLower_names Let_def)

lemma consumeSig_secp256k1:
  "consumeSignatureVerificationGas env meter sig (PubKeySecp256k1 k) =
     (case ConsumeGas env meter secp256k1VerifyCost ''ante verify: secp256k1'' of
        Inl p \<Rightarrow> Inl p
      | Inr meter' \<Rightarrow> Inr (meter', emptyResult))"
  by (subst consumeSignatureVerificationGas.simps) (simp add: ToLower_names Let_def)

lemma consumeSig_multisig:
  "consumeSignatureVerificationGas env meter sig (PubKeyMultisigThreshold k pks) =
     (case UnmarshalBinaryBare env sig of
        None \<Rightarrow> Inl (UnmarshalFailed, meter)
      | Some ms \<Rightarrow>
          (case consumeMultisignatureVerificationGas env meter ms (k, pks) of
             Inl p \<Rightarrow> Inl p
           | Inr meter' \<Rightarrow> Inr (meter', emptyResult)))"
  by (subst consumeSignatureVerificationGas.simps)
     (simp add: ToLower_names Let_def split: option.splits)

lemma consumeSig_other:
  "consumeSignatureVerificationGas env meter sig (PubKeyOther name k) =
     (if Contains (ToLower name) ''ed25519'' then
        (case ConsumeGas env meter ed25519VerifyCost ''ante verify: ed25519'' of
           Inl p \<Rightarrow> Inl p
         | Inr meter' \<Rightarrow> Inr (meter', emptyResult))
      else if Contains (ToLower name) ''secp256k1'' then
        (case ConsumeGas env meter secp256k1VerifyCost ''ante verify: secp256k1'' of
           Inl p \<Rightarrow> Inl p
         | Inr meter' \<Rightarrow> Inr (meter', emptyResult))
      else if Contains (ToLower name) ''multisigthreshold'' then
        (case UnmarshalBinaryBare env sig of
           None \<Rightarrow> Inl (UnmarshalFailed, meter)
         | Some ms \<Rightarrow> Inl (TypeAssertionFailed, meter))
      else
        Inr (meter, ErrInvalidPubKey
               (Sprintf ''unrecognized public key type: %s'' [StringArg (ToLower name)])))"
  by (subst consumeSignatureVerificationGas.simps) (simp add: Let_def split: option.splits)

lemma consume_charged:
  shows "\<forall>meter' res. consumeSignatureVerificationGas env meter sig pubkey = Inr (meter', res) \<longrightarrow>
           rawConsumed meter' = rawConsumed meter + of_nat (keyCost env sig pubkey)"
    and "\<forall>meter'. consumeMultisignatureVerificationGas env meter ms mpk = Inr meter' \<longrightarrow>
           rawConsumed meter' = rawConsumed meter + of_nat (membersCost env ms (snd mpk) 0 0)"
    and "\<forall>meter'. consumeMultisignatureVerificationGas_loop env meter ms mpk i si = Inr meter' \<longrightarrow>
           rawConsumed meter' = rawConsumed meter + of_nat (membersCost env ms (snd mpk) i si)"
proof (induction env meter sig pubkey and env meter ms mpk and env meter ms mpk i si
       rule: consumeSignatureVerificationGas_consumeMultisignatureVerificationGas_consumeMultisignatureVerificationGas_loop.induct)
  case (1 env meter sig pubkey)
  show ?case
  proof (intro allI impI)
    fix meter' res
    assume run: "consumeSignatureVerificationGas env meter sig pubkey = Inr (meter', res)"
    show "rawConsumed meter' = rawConsumed meter + of_nat (keyCost env sig pubkey)"
    proof (cases pubkey)
      case (PubKeyEd25519 k)
      with run show ?thesis
        by (auto simp: consumeSig_ed25519 ed25519VerifyCost_def split: sum.splits
                 dest: ConsumeGas_rawConsumed)
    next
      case (PubKeySecp256k1 k)
      with run show ?thesis
        by (auto simp: consumeSig_secp256k1 secp256k1VerifyCost_def split: sum.splits
                 dest: ConsumeGas_rawConsumed)
    next
      case (PubKeyMultisigThreshold k pks)
      from run PubKeyMultisigThreshold obtain ms where
        dec: "UnmarshalBinaryBare env sig = Some ms" and
        inner: "consumeMultisignatureVerificationGas env meter ms (k, pks) = Inr meter'"
        by (auto simp: consumeSig_multisig simp del: consumeMultisignatureVerificationGas.simps
                 split: sum.splits option.splits)
      have "rawConsumed meter' = rawConsumed meter + of_nat (membersCost env ms (snd (k, pks)) 0 0)"
        using "1.IH" [OF refl _ _ _ dec PubKeyMultisigThreshold] inner
        by (simp add: PubKeyMultisigThreshold ToLower_names)
      with dec PubKeyMultisigThreshold show ?thesis
        by (simp add: membersCost_def)
    next
      case (PubKeyOther name k)
      with run show ?thesis
        by (auto simp: consumeSig_other ed25519VerifyCost_def secp256k1VerifyCost_def
                 split: sum.splits option.splits if_splits
                 dest: ConsumeGas_rawConsumed)
    qed
  qed
next
  case (2 env meter sig pubkey)
  then show ?case by simp
next
  case (3 env meter sig pubkey i sigIndex)
  show ?case
  proof (intro allI impI)
    fix meter'
    assume run: "consumeMultisignatureVerificationGas_loop env meter sig pubkey i sigIndex = Inr meter'"
    show "rawConsumed meter' = rawConsumed meter + of_nat (membersCost env sig (snd pubkey) i sigIndex)"
    proof (cases "i < Size (BitArray sig)")
      case False
      with run show ?thesis
        by (subst (asm) consumeMultisignatureVerificationGas_loop.simps)
           (simp add: Size_def membersCost_end)
    next
      case True
      show ?thesis
      proof (cases "GetIndex (BitArray sig) i")
        case False
        with True run have
          next_run: "consumeMultisignatureVerificationGas_loop env meter sig pubkey (i + 1) sigIndex = Inr meter'"
          by (subst (asm) consumeMultisignatureVerificationGas_loop.simps) simp
        from "3.IH"(3) [OF True False] next_run
        have "rawConsumed meter' = rawConsumed meter + of_nat (membersCost env sig (snd pubkey) (i + 1) sigIndex)"
          by simp
        with True False show ?thesis
          by (simp add: membersCost_skip Size_def GetIndex_def)
      next
        case bit: True
        from True bit run have inr: "sigIndex < length (Sigs sig) \<and> i < length (snd pubkey)"
          by (subst (asm) consumeMultisignatureVerificationGas_loop.simps)
             (auto split: if_splits)
        with True bit run obtain m1 r1 where
          member: "consumeSignatureVerificationGas env meter (Sigs sig ! sigIndex) (snd pubkey ! i) = Inr (m1, r1)"
          and rest: "consumeMultisignatureVerificationGas_loop env m1 sig pubkey (i + 1) (sigIndex + 1) = Inr meter'"
          by (subst (asm) consumeMultisignatureVerificationGas_loop.simps)
             (auto split: sum.splits)
        from "3.IH"(1) [OF True bit inr] member
        have c1: "rawConsumed m1 = rawConsumed meter + of_nat (keyCost env (Sigs sig ! sigIndex) (snd pubkey ! i))"
          by simp
        from "3.IH"(2) [OF True bit inr member refl] rest
        have c2: "rawConsumed meter' = rawConsumed m1 + of_nat (membersCost env sig (snd pubkey) (i + 1) (sigIndex + 1))"
          by simp
        from True bit inr have
          "membersCost env sig (snd pubkey) i sigIndex =
             keyCost env (Sigs sig ! sigIndex) (snd pubkey ! i)
             + membersCost env sig (snd pubkey) (Suc i) (Suc sigIndex)"
          by (intro membersCost_take) (simp_all add: Size_def GetIndex_def)
        with c1 c2 show ?thesis by simp
      qed
    qed
  qed
qed


lemma membersWellFormed_skip:
  assumes "i < length (BitArray ms)" "\<not> BitArray ms ! i"
  shows "membersWellFormed env ms pks i si = membersWellFormed env ms pks (Suc i) si"
proof -
  from assms have "drop i (BitArray ms) = False # drop (Suc i) (BitArray ms)"
    by (metis Cons_nth_drop_Suc)
  then show ?thesis
    by (simp add: membersWellFormed_def included_False_tl drop_Suc tl_drop)
qed

lemma membersWellFormed_take:
  assumes "i < length (BitArray ms)" "BitArray ms ! i" "membersWellFormed env ms pks i si"
  shows "si < length (Sigs ms) \<and> i < length pks \<and> sigWellFormed env (Sigs ms ! si) (pks ! i) \<and>
         membersWellFormed env ms pks (Suc i) (Suc si)"
proof -
  from assms have bits: "drop i (BitArray ms) = True # drop (Suc i) (BitArray ms)"
    by (metis Cons_nth_drop_Suc)
  from assms(3) bits have si: "si < length (Sigs ms)"
    by (auto simp: membersWellFormed_def)
  have ip: "i < length pks"
  proof (rule ccontr)
    assume "\<not> i < length pks"
    then have "drop i pks = []" by simp
    with assms(3) bits show False by (simp add: membersWellFormed_def)
  qed
  from si ip have
    "drop i pks = pks ! i # drop (Suc i) pks"
    "drop si (Sigs ms) = Sigs ms ! si # drop (Suc si) (Sigs ms)"
    by (metis Cons_nth_drop_Suc)+
  with assms(3) bits si ip show ?thesis
    by (simp add: membersWellFormed_def)
qed

lemma sigWellFormed_multisig:
  "UnmarshalBinaryBare env sig = Some ms \<Longrightarrow>
   sigWellFormed env sig (PubKeyMultisigThreshold k pks) = membersWellFormed env ms pks 0 0"
  by (simp add: membersWellFormed_def)

lemma consume_infinite:
  shows "\<forall>c. meter = infiniteGasMeter c \<longrightarrow> sigWellFormed env sig pubkey \<longrightarrow>
           (\<exists>res. consumeSignatureVerificationGas env meter sig pubkey =
                     Inr (infiniteGasMeter (c + of_nat (keyCost env sig pubkey)), res))"
    and "\<forall>c. meter = infiniteGasMeter c \<longrightarrow> membersWellFormed env ms (snd mpk) 0 0 \<longrightarrow>
           consumeMultisignatureVerificationGas env meter ms mpk =
             Inr (infiniteGasMeter (c + of_nat (membersCost env ms (snd mpk) 0 0)))"
    and "\<forall>c. meter = infiniteGasMeter c \<longrightarrow> membersWellFormed env ms (snd mpk) i si \<longrightarrow>
           consumeMultisignatureVerificationGas_loop env meter ms mpk i si =
             Inr (infiniteGasMeter (c + of_nat (membersCost env ms (snd mpk) i si)))"
proof (induction env meter sig pubkey and env meter ms mpk and env meter ms mpk i si
       rule: consumeSignatureVerificationGas_consumeMultisignatureVerificationGas_consumeMultisignatureVerificationGas_loop.induct)
  case (1 env meter sig pubkey)
  show ?case
  proof (intro allI impI)
    fix c
    assume m: "meter = infiniteGasMeter c" and wf: "sigWellFormed env sig pubkey"
    show "\<exists>res. consumeSignatureVerificationGas env meter sig pubkey =
                     Inr (infiniteGasMeter (c + of_nat (keyCost env sig pubkey)), res)"
    proof (cases pubkey)
      case (PubKeyEd25519 k)
      with m show ?thesis
        by (simp add: consumeSig_ed25519 ed25519VerifyCost_def)
    next
      case (PubKeySecp256k1 k)
      with m show ?thesis
        by (simp add: consumeSig_secp256k1 secp256k1VerifyCost_def)
    next
      case (PubKeyMultisigThreshold k pks)
      with wf obtain ms where dec: "UnmarshalBinaryBare env sig = Some ms"
        and mwf: "membersWellFormed env ms pks 0 0"
        by (cases "UnmarshalBinaryBare env sig") (auto simp: membersWellFormed_def)
      have "consumeMultisignatureVerificationGas env meter ms (k, pks) =
              Inr (infiniteGasMeter (c + of_nat (membersCost env ms (snd (k, pks)) 0 0)))"
        using "1.IH" [OF refl _ _ _ dec PubKeyMultisigThreshold] m mwf
        by (simp add: PubKeyMultisigThreshold ToLower_names)
      with dec PubKeyMultisigThreshold show ?thesis
        by (simp add: consumeSig_multisig membersCost_def
                 del: consumeMultisignatureVerificationGas.simps)
    next
      case (PubKeyOther name k)
      with m wf show ?thesis
        by (auto simp: consumeSig_other ed25519VerifyCost_def secp256k1VerifyCost_def)
    qed
  qed
next
  case (2 env meter sig pubkey)
  then show ?case by simp
next
  case (3 env meter sig pubkey i sigIndex)
  show ?case
  proof (intro allI impI)
    fix c
    assume m: "meter = infiniteGasMeter c"
      and wf: "membersWellFormed env sig (snd pubkey) i sigIndex"
    show "consumeMultisignatureVerificationGas_loop env meter sig pubkey i sigIndex =
             Inr (infiniteGasMeter (c + of_nat (membersCost env sig (snd pubkey) i sigIndex)))"
    proof (cases "i < Size (BitArray sig)")
      case False
      with m show ?thesis
        by (subst consumeMultisignatureVerificationGas_loop.simps)
           (simp add: Size_def membersCost_end)
    next
      case True
      show ?thesis
      proof (cases "GetIndex (BitArray sig) i")
        case False
        with True wf have wf': "membersWellFormed env sig (snd pubkey) (i + 1) sigIndex"
          by (simp add: membersWellFormed_skip Size_def GetIndex_def)
        from "3.IH"(3) [OF True False] m wf'
        have "consumeMultisignatureVerificationGas_loop env meter sig pubkey (i + 1) sigIndex =
                Inr (infiniteGasMeter (c + of_nat (membersCost env sig (snd pubkey) (i + 1) sigIndex)))"
          by simp
        with True False show ?thesis
          by (subst consumeMultisignatureVerificationGas_loop.simps)
             (simp add: membersCost_skip Size_def GetIndex_def)
      next
        case bit: True
        from membersWellFormed_take [of i sig env "snd pubkey" sigIndex] True bit wf
        have inr: "sigIndex < length (Sigs sig) \<and> i < length (snd pubkey)"
          and mwf: "sigWellFormed env (Sigs sig ! sigIndex) (snd pubkey ! i)"
          and rwf: "membersWellFormed env sig (snd pubkey) (Suc i) (Suc sigIndex)"
          by (simp_all add: Size_def GetIndex_def)
        from "3.IH"(1) [OF True bit inr] m mwf obtain r1 where
          member: "consumeSignatureVerificationGas env meter (Sigs sig ! sigIndex) (snd pubkey ! i) =
             Inr (infiniteGasMeter (c + of_nat (keyCost env (Sigs sig ! sigIndex) (snd pubkey ! i))), r1)"
          by auto
        from "3.IH"(2) [OF True bit inr member refl] rwf
        have rest: "consumeMultisignatureVerificationGas_loop env
              (infiniteGasMeter (c + of_nat (keyCost env (Sigs sig ! sigIndex) (snd pubkey ! i))))
              sig pubkey (i + 1) (sigIndex + 1) =
            Inr (infiniteGasMeter (c + of_nat (keyCost env (Sigs sig ! sigIndex) (snd pubkey ! i))
                   + of_nat (membersCost env sig (snd pubkey) (i + 1) (sigIndex + 1))))"
          by simp
        from True bit inr have
          "membersCost env sig (snd pubkey) i sigIndex =
             keyCost env (Sigs sig ! sigIndex) (snd pubkey ! i)
             + membersCost env sig (snd pubkey) (Suc i) (Suc sigIndex)"
          by (intro membersCost_take) (simp_all add: Size_def GetIndex_def)
        with True bit inr member rest show ?thesis
          by (subst consumeMultisignatureVerificationGas_loop.simps) (simp add: add.assoc)
      qed
    qed
  qed
qed

lemma consumeSig_multisig_result:
  "consumeSignatureVerificationGas env meter sig (PubKeyMultisigThreshold k pks) = Inr (meter', res)
   \<Longrightarrow> res = emptyResult"
  by (auto simp: consumeSig_multisig simp del: consumeMultisignatureVerificationGas.simps
           split: option.splits sum.splits)

lemma singleKeys_cost:
  "list_all isSingleKey inc \<Longrightarrow> length inc \<le> length sigs \<Longrightarrow>
   sum_list (map (\<lambda>(pk, s). keyCost env s pk) (zip inc sigs)) = sum_list (map singleKeyCost inc)"
proof (induction inc arbitrary: sigs)
  case Nil
  then show ?case by simp
next
  case (Cons pk inc)
  then obtain s rest where sigs: "sigs = s # rest" by (cases sigs) auto
  from Cons.prems have "isSingleKey pk" by simp
  then have "keyCost env s pk = singleKeyCost pk" by (cases pk) simp_all
  with Cons sigs show ?case by simp
qed

lemma singleKeys_wellFormed:
  "list_all isSingleKey inc \<Longrightarrow> list_all (\<lambda>(pk, s). sigWellFormed env s pk) (zip inc sigs)"
proof (induction inc arbitrary: sigs)
  case Nil
  then show ?case by simp
next
  case (Cons pk inc)
  show ?case
  proof (cases sigs)
    case Nil
    then show ?thesis by simp
  next
    case (Cons s rest)
    from Cons.prems have "isSingleKey pk" by simp
    then have "sigWellFormed env s pk" by (cases pk) simp_all
    with Cons.IH Cons.prems Cons show ?thesis by simp
  qed
qed

text \<open>
  C10. The verification gas of a threshold multisig is computed recursively. Whenever
  the computation returns, the gas consumed has grown by the cost of the key, which is
  the sum, over the member keys whose bit is set, of the cost of the member's own key
  type for its partial signature: a member that is itself a threshold multisig
  contributes the sum over its own included members. On the infinite meter the
  computation returns for every well-formed signature. The result of the member's cost
  lookup is discarded: a member of an unrecognized key type, which on its own gives an
  invalid-public-key error, costs nothing inside a multisig, and the result for the
  multisig is the OK result.
\<close>

theorem multisig_gas_recursive:
  "(consumeSignatureVerificationGas env meter sig (PubKeyMultisigThreshold k pks) = Inr (meter', res) \<longrightarrow>
      res = emptyResult \<and> IsOK res \<and>
      rawConsumed meter' =
        rawConsumed meter + of_nat (keyCost env sig (PubKeyMultisigThreshold k pks)))
   \<and> (sigWellFormed env sig (PubKeyMultisigThreshold k pks) \<longrightarrow>
        consumeSignatureVerificationGas env (infiniteGasMeter c) sig (PubKeyMultisigThreshold k pks) =
          Inr (infiniteGasMeter (c + of_nat (keyCost env sig (PubKeyMultisigThreshold k pks))),
               emptyResult))
   \<and> (UnmarshalBinaryBare env sig = Some ms \<longrightarrow>
        keyCost env sig (PubKeyMultisigThreshold k pks) =
          sum_list (map (\<lambda>(pk, s). keyCost env s pk) (zip (included (BitArray ms) pks) (Sigs ms))))
   \<and> (unrecognized name \<longrightarrow>
        keyCost env s (PubKeyOther name b) = 0 \<and> sigWellFormed env s (PubKeyOther name b) \<and>
        consumeSignatureVerificationGas env meter s (PubKeyOther name b) =
          Inr (meter, ErrInvalidPubKey
                 (Sprintf ''unrecognized public key type: %s'' [StringArg (ToLower name)])) \<and>
        \<not> IsOK (ErrInvalidPubKey
                 (Sprintf ''unrecognized public key type: %s'' [StringArg (ToLower name)])))"
proof (intro conjI impI)
  assume run: "consumeSignatureVerificationGas env meter sig (PubKeyMultisigThreshold k pks) = Inr (meter', res)"
  from consumeSig_multisig_result [OF run] show "res = emptyResult" .
  then show "IsOK res" by (simp add: IsOK_def emptyResult_def)
  from consume_charged(1) [of env meter sig "PubKeyMultisigThreshold k pks"] run
  show "rawConsumed meter' =
        rawConsumed meter + of_nat (keyCost env sig (PubKeyMultisigThreshold k pks))"
    by blast
next
  assume wf: "sigWellFormed env sig (PubKeyMultisigThreshold k pks)"
  from consume_infinite(1) [of "infiniteGasMeter c" env sig "PubKeyMultisigThreshold k pks"] wf
  obtain res where run: "consumeSignatureVerificationGas env (infiniteGasMeter c) sig (PubKeyMultisigThreshold k pks) =
          Inr (infiniteGasMeter (c + of_nat (keyCost env sig (PubKeyMultisigThreshold k pks))), res)"
    by blast
  from consumeSig_multisig_result [OF run] run
  show "consumeSignatureVerificationGas env (infiniteGasMeter c) sig (PubKeyMultisigThreshold k pks) =
          Inr (infiniteGasMeter (c + of_nat (keyCost env sig (PubKeyMultisigThreshold k pks))),
               emptyResult)" by simp
next
  assume "UnmarshalBinaryBare env sig = Some ms"
  then show "keyCost env sig (PubKeyMultisigThreshold k pks) =
          sum_list (map (\<lambda>(pk, s). keyCost env s pk) (zip (included (BitArray ms) pks) (Sigs ms)))"
    by simp
next
  assume u: "unrecognized name"
  then show "keyCost env s (PubKeyOther name b) = 0" by (simp add: unrecognized_def)
  from u show "sigWellFormed env s (PubKeyOther name b)" by (simp add: unrecognized_def)
  from u show "consumeSignatureVerificationGas env meter s (PubKeyOther name b) =
          Inr (meter, ErrInvalidPubKey
                 (Sprintf ''unrecognized public key type: %s'' [StringArg (ToLower name)]))"
    by (simp add: consumeSig_other unrecognized_def)
  show "\<not> IsOK (ErrInvalidPubKey
                 (Sprintf ''unrecognized public key type: %s'' [StringArg (ToLower name)]))"
    by (simp add: IsOK_def ErrInvalidPubKey_def errResult_def)
qed

theorem multisig_gas_recursive_witness:
  "consumeSignatureVerificationGas exampleEnv (infiniteGasMeter 0)
     [3, 1, 1, 0, 1, 7, 7, 2, 1, 1, 1, 8, 1, 9]
     (PubKeyMultisigThreshold 2 [PubKeyEd25519 [1], exampleInnerKey, PubKeyEd25519 [3]])
     = Inr (infiniteGasMeter 159, emptyResult)
   \<and> keyCost exampleEnv [3, 1, 1, 0, 1, 7, 7, 2, 1, 1, 1, 8, 1, 9]
       (PubKeyMultisigThreshold 2 [PubKeyEd25519 [1], exampleInnerKey, PubKeyEd25519 [3]])
     = keyCost exampleEnv [7] (PubKeyEd25519 [1])
       + keyCost exampleEnv [2, 1, 1, 1, 8, 1, 9] exampleInnerKey
   \<and> keyCost exampleEnv [2, 1, 1, 1, 8, 1, 9] exampleInnerKey = 100
   \<and> consumeSignatureVerificationGas exampleEnv (infiniteGasMeter 0) [9]
       (PubKeyOther ''sr25519.PubKeySr25519'' [5])
     = Inr (infiniteGasMeter 0,
            ErrInvalidPubKey
              (Sprintf ''unrecognized public key type: %s'' [StringArg ''sr25519.pubkeysr25519'']))"
proof -
  let ?sig = "[3, 1, 1, 0, 1, 7, 7, 2, 1, 1, 1, 8, 1, 9] :: bytes"
  let ?pks = "[PubKeyEd25519 [1], exampleInnerKey, PubKeyEd25519 [3]]"
  let ?ms = "\<lparr>BitArray = [True, True, False], Sigs = [[7], [2, 1, 1, 1, 8, 1, 9]]\<rparr>"
  note inst = multisig_gas_recursive [of exampleEnv "infiniteGasMeter 0" ?sig 2 ?pks
      "infiniteGasMeter 159" emptyResult 0 ?ms "''sr25519.PubKeySr25519''" "[9]" "[5]"]
  have wf: "sigWellFormed exampleEnv ?sig (PubKeyMultisigThreshold 2 ?pks)"
    by code_simp
  have cost: "keyCost exampleEnv ?sig (PubKeyMultisigThreshold 2 ?pks) = 159"
    by code_simp
  have dec: "UnmarshalBinaryBare exampleEnv ?sig = Some ?ms"
    by code_simp
  have un: "unrecognized ''sr25519.PubKeySr25519''"
    by code_simp
  have low: "ToLower ''sr25519.PubKeySr25519'' = ''sr25519.pubkeysr25519''"
    by code_simp
  have inner: "keyCost exampleEnv [2, 1, 1, 1, 8, 1, 9] exampleInnerKey = 100"
    by code_simp
  from inst wf cost have run:
    "consumeSignatureVerificationGas exampleEnv (infiniteGasMeter 0) ?sig
       (PubKeyMultisigThreshold 2 ?pks) = Inr (infiniteGasMeter 159, emptyResult)"
    by simp
  from inst dec have sum:
    "keyCost exampleEnv ?sig (PubKeyMultisigThreshold 2 ?pks)
     = keyCost exampleEnv [7] (PubKeyEd25519 [1])
       + keyCost exampleEnv [2, 1, 1, 1, 8, 1, 9] exampleInnerKey"
    by (simp del: keyCost.simps)
  from inst un low have other:
    "consumeSignatureVerificationGas exampleEnv (infiniteGasMeter 0) [9]
       (PubKeyOther ''sr25519.PubKeySr25519'' [5])
     = Inr (infiniteGasMeter 0,
            ErrInvalidPubKey
              (Sprintf ''unrecognized public key type: %s'' [StringArg ''sr25519.pubkeysr25519'']))"
    by simp
  from run sum inner other show ?thesis by blast
qed

text \<open>
  C3, as the claim states it, fails: the code never compares the number of partial
  signatures with the number of set bits. With the bitmap 101 and one partial signature
  the gas computation charges the first member and then panics with an index out of
  range, and the handler panics with it: no error result is returned.
\<close>

theorem multisig_count_mismatch_counterexample:
  "consumeSignatureVerificationGas exampleEnv (infiniteGasMeter 0) [3, 1, 0, 1, 1, 7]
     exampleMultisigKey = Inl (IndexOutOfRange, infiniteGasMeter 59)
   \<and> (case NewAnteHandler exampleEnv exampleMultisigKeepers exampleContext
             (StdTxOf (exampleTx [3, 1, 0, 1, 1, 7])) False of
         Panics p K \<Rightarrow> p = IndexOutOfRange
       | Returns c res abort K \<Rightarrow> False)"
  by code_simp

text \<open>
  C3, amended. When the multisignature has at least as many partial signatures as set
  bits, a member key at every set bit, and single keys as the included members, the gas
  computation returns the OK result and the gas charged is the sum of the costs of exactly
  the member keys whose bit is set, in bitmap order: on the infinite meter it returns, and
  on any meter the gas consumed has grown by that sum whenever it returns. Partial
  signatures beyond the set bits are ignored.
\<close>

theorem multisig_gas_sum:
  assumes "UnmarshalBinaryBare env sig = Some ms"
    and "length (filter id (BitArray ms)) \<le> length (Sigs ms)"
    and "length (included (BitArray ms) pks) = length (filter id (BitArray ms))"
    and "list_all isSingleKey (included (BitArray ms) pks)"
  shows "consumeSignatureVerificationGas env (infiniteGasMeter c) sig (PubKeyMultisigThreshold k pks)
           = Inr (infiniteGasMeter
                    (c + of_nat (sum_list (map singleKeyCost (included (BitArray ms) pks)))),
                  emptyResult)
         \<and> (consumeSignatureVerificationGas env meter sig (PubKeyMultisigThreshold k pks)
              = Inr (meter', res) \<longrightarrow>
            res = emptyResult \<and>
            rawConsumed meter' =
              rawConsumed meter + of_nat (sum_list (map singleKeyCost (included (BitArray ms) pks))))"
proof -
  let ?inc = "included (BitArray ms) pks"
  from assms(2,3) have len: "length ?inc \<le> length (Sigs ms)" by simp
  have cost: "keyCost env sig (PubKeyMultisigThreshold k pks) = sum_list (map singleKeyCost ?inc)"
    using assms(1) singleKeys_cost [OF assms(4) len, of env] by simp
  have wf: "sigWellFormed env sig (PubKeyMultisigThreshold k pks)"
    using assms(1,2,3) singleKeys_wellFormed [OF assms(4), of env "Sigs ms"] by simp
  from consume_infinite(1) [of "infiniteGasMeter c" env sig "PubKeyMultisigThreshold k pks"] wf
  obtain r where run: "consumeSignatureVerificationGas env (infiniteGasMeter c) sig
       (PubKeyMultisigThreshold k pks) =
     Inr (infiniteGasMeter (c + of_nat (keyCost env sig (PubKeyMultisigThreshold k pks))), r)"
    by blast
  from consumeSig_multisig_result [OF run] run cost
  have first: "consumeSignatureVerificationGas env (infiniteGasMeter c) sig
       (PubKeyMultisigThreshold k pks)
     = Inr (infiniteGasMeter (c + of_nat (sum_list (map singleKeyCost ?inc))), emptyResult)"
    by (simp del: keyCost.simps)
  have second: "consumeSignatureVerificationGas env meter sig (PubKeyMultisigThreshold k pks)
              = Inr (meter', res) \<longrightarrow>
            res = emptyResult \<and>
            rawConsumed meter' = rawConsumed meter + of_nat (sum_list (map singleKeyCost ?inc))"
  proof
    assume r: "consumeSignatureVerificationGas env meter sig (PubKeyMultisigThreshold k pks)
              = Inr (meter', res)"
    from consume_charged(1) [of env meter sig "PubKeyMultisigThreshold k pks"] r cost
    have "rawConsumed meter' = rawConsumed meter + of_nat (sum_list (map singleKeyCost ?inc))"
      by (simp del: keyCost.simps)
    with consumeSig_multisig_result [OF r]
    show "res = emptyResult \<and>
            rawConsumed meter' = rawConsumed meter + of_nat (sum_list (map singleKeyCost ?inc))"
      by simp
  qed
  from first second show ?thesis by blast
qed

theorem multisig_gas_sum_witness:
  "consumeSignatureVerificationGas exampleEnv (infiniteGasMeter 0) [3, 1, 0, 1, 1, 7, 1, 8]
     (PubKeyMultisigThreshold 2 [PubKeyEd25519 [1], PubKeySecp256k1 [2], PubKeySecp256k1 [3]])
     = Inr (infiniteGasMeter (59 + 100), emptyResult)
   \<and> consumeSignatureVerificationGas exampleEnv (infiniteGasMeter 0) [3, 1, 0, 0, 1, 7, 1, 8]
     (PubKeyMultisigThreshold 2 [PubKeyEd25519 [1], PubKeySecp256k1 [2], PubKeySecp256k1 [3]])
     = Inr (infiniteGasMeter 59, emptyResult)"
proof -
  let ?pks = "[PubKeyEd25519 [1], PubKeySecp256k1 [2], PubKeySecp256k1 [3]]"
  let ?ms = "\<lparr>BitArray = [True, False, True], Sigs = [[7], [8]]\<rparr>"
  let ?ms' = "\<lparr>BitArray = [True, False, False], Sigs = [[7], [8]]\<rparr>"
  have dec: "UnmarshalBinaryBare exampleEnv [3, 1, 0, 1, 1, 7, 1, 8] = Some ?ms"
    by code_simp
  have dec': "UnmarshalBinaryBare exampleEnv [3, 1, 0, 0, 1, 7, 1, 8] = Some ?ms'"
    by code_simp
  from multisig_gas_sum [OF dec, of ?pks 0 2 "infiniteGasMeter 0" "infiniteGasMeter 159" emptyResult]
  have 1: "consumeSignatureVerificationGas exampleEnv (infiniteGasMeter 0) [3, 1, 0, 1, 1, 7, 1, 8]
     (PubKeyMultisigThreshold 2 ?pks) = Inr (infiniteGasMeter (59 + 100), emptyResult)"
    by simp
  from multisig_gas_sum [OF dec', of ?pks 0 2 "infiniteGasMeter 0" "infiniteGasMeter 59" emptyResult]
  have 2: "consumeSignatureVerificationGas exampleEnv (infiniteGasMeter 0) [3, 1, 0, 0, 1, 7, 1, 8]
     (PubKeyMultisigThreshold 2 ?pks) = Inr (infiniteGasMeter 59, emptyResult)"
    by simp
  from 1 2 show ?thesis by blast
qed

subsection \<open>Coins\<close>

lemma AmountOf_notin: "d \<notin> fst ` set coins \<Longrightarrow> AmountOf coins d = 0"
  by (simp add: AmountOf_def map_of_eq_None_iff [THEN iffD2])

lemma AmountOf_map:
  "AmountOf (map (\<lambda>d. (d, f d)) ds) d = (if d \<in> set ds then f d else 0)"
  by (induction ds) (auto simp: AmountOf_def)

lemma denoms_cases: "d \<notin> set (denoms a b) \<Longrightarrow> AmountOf a d = 0 \<and> AmountOf b d = 0"
  by (auto simp: denoms_def intro: AmountOf_notin)

lemma AmountOf_SafeSub:
  "AmountOf (fst (SafeSub a b)) d = AmountOf a d - AmountOf b d"
  using denoms_cases [of d a b] by (auto simp: SafeSub_def Let_def AmountOf_map)

lemma hasNeg_SafeSub:
  "snd (SafeSub a b) \<longleftrightarrow> (\<exists>d. AmountOf a d < AmountOf b d)"
proof
  assume "snd (SafeSub a b)"
  then show "\<exists>d. AmountOf a d < AmountOf b d"
    by (auto simp: SafeSub_def Let_def list_ex_iff)
next
  assume "\<exists>d. AmountOf a d < AmountOf b d"
  then obtain d where d: "AmountOf a d < AmountOf b d" ..
  have "d \<in> set (denoms a b)"
  proof (rule ccontr)
    assume "d \<notin> set (denoms a b)"
    from denoms_cases [OF this] d show False by simp
  qed
  with d show "snd (SafeSub a b)"
    by (auto simp: SafeSub_def Let_def list_ex_iff)
qed

lemma AmountOf_CoinsAdd:
  "AmountOf (CoinsAdd a b) d = AmountOf a d + AmountOf b d"
  using denoms_cases [of d a b] by (auto simp: CoinsAdd_def AmountOf_map)

lemma IsAllGTE_iff: "IsAllGTE a b \<longleftrightarrow> (\<forall>d. AmountOf b d \<le> AmountOf a d)"
proof
  assume g: "IsAllGTE a b"
  show "\<forall>d. AmountOf b d \<le> AmountOf a d"
  proof
    fix d
    show "AmountOf b d \<le> AmountOf a d"
      using g denoms_cases [of d a b] by (cases "d \<in> set (denoms a b)") (auto simp: IsAllGTE_def list_all_iff)
  qed
next
  assume "\<forall>d. AmountOf b d \<le> AmountOf a d"
  then show "IsAllGTE a b" by (simp add: IsAllGTE_def list_all_iff)
qed

lemma IsZero_iff: "IsZero coins \<longleftrightarrow> (\<forall>d. AmountOf coins d = 0)"
proof
  assume z: "IsZero coins"
  show "\<forall>d. AmountOf coins d = 0"
  proof
    fix d
    show "AmountOf coins d = 0"
      using z AmountOf_notin [of d coins] by (cases "d \<in> fst ` set coins") (auto simp: IsZero_def list_all_iff)
  qed
next
  assume "\<forall>d. AmountOf coins d = 0"
  then show "IsZero coins" by (simp add: IsZero_def list_all_iff)
qed

subsection \<open>Gas meter construction\<close>

text \<open>
  C6. \<^verbatim>\<open>setGasMeter\<close> installs the infinite gas meter when simulating or at block
  height 0, and otherwise the meter with base bounded by the declared gas limit, with base
  1.02 and shift 285; nothing else of the context changes. Consuming gas on the infinite
  meter never aborts. On the meter with base the gas reported is the raw amount up to the
  shift and the logarithm \<^verbatim>\<open>log(gas)/log(1.02)\<close> beyond it, and consuming gas aborts
  with the out-of-gas signal exactly when the gas reported exceeds the limit.
\<close>

theorem setGasMeter_construction:
  "(simulate \<or> BlockHeight ctx = 0 \<longrightarrow>
      setGasMeter simulate ctx gasLimit = ctx\<lparr>GasMeter := infiniteGasMeter 0\<rparr>)
   \<and> (\<not> simulate \<and> BlockHeight ctx \<noteq> 0 \<longrightarrow>
        setGasMeter simulate ctx gasLimit =
          ctx\<lparr>GasMeter := gasMeterWithBase gasLimit 0 (102 / 100) 285\<rparr>)
   \<and> ConsumeGas env (infiniteGasMeter c) amount descriptor = Inr (infiniteGasMeter (c + amount))
   \<and> GasConsumed env (infiniteGasMeter c) = c
   \<and> (c \<le> 285 \<longrightarrow> GasConsumed env (gasMeterWithBase gasLimit c (102 / 100) 285) = c)
   \<and> (285 < c \<longrightarrow>
        GasConsumed env (gasMeterWithBase gasLimit c (102 / 100) 285) = LogGas env (102 / 100) c)
   \<and> (GasConsumed env (gasMeterWithBase gasLimit (c + amount) (102 / 100) 285) \<le> gasLimit \<longrightarrow>
        ConsumeGas env (gasMeterWithBase gasLimit c (102 / 100) 285) amount descriptor =
          Inr (gasMeterWithBase gasLimit (c + amount) (102 / 100) 285))
   \<and> (gasLimit < GasConsumed env (gasMeterWithBase gasLimit (c + amount) (102 / 100) 285) \<longrightarrow>
        ConsumeGas env (gasMeterWithBase gasLimit c (102 / 100) 285) amount descriptor =
          Inl (ErrorOutOfGas descriptor, gasMeterWithBase gasLimit (c + amount) (102 / 100) 285))"
  by (auto simp: setGasMeter_def NewInfiniteGasMeter_def NewGasMeterWithBase_def gasBase_def
        gasShift_def Let_def)

theorem setGasMeter_construction_witness:
  "setGasMeter True exampleContext 50000 = exampleContext\<lparr>GasMeter := infiniteGasMeter 0\<rparr>
   \<and> setGasMeter False (exampleContext\<lparr>BlockHeight := 0\<rparr>) 50000
       = exampleContext\<lparr>BlockHeight := 0, GasMeter := infiniteGasMeter 0\<rparr>
   \<and> setGasMeter False exampleContext 50000
       = exampleContext\<lparr>GasMeter := gasMeterWithBase 50000 0 (102 / 100) 285\<rparr>
   \<and> GasConsumed exampleEnv (gasMeterWithBase 50000 100 (102 / 100) 285) = 100
   \<and> GasConsumed exampleEnv (gasMeterWithBase 50000 300 (102 / 100) 285)
       = LogGas exampleEnv (102 / 100) 300
   \<and> ConsumeGas exampleEnv (gasMeterWithBase 50000 0 (102 / 100) 285) 100 ''ante verify: secp256k1''
       = Inr (gasMeterWithBase 50000 100 (102 / 100) 285)
   \<and> ConsumeGas exampleEnv (gasMeterWithBase 50 0 (102 / 100) 285) 100 ''ante verify: secp256k1''
       = Inl (ErrorOutOfGas ''ante verify: secp256k1'', gasMeterWithBase 50 100 (102 / 100) 285)"
proof -
  have h: "BlockHeight exampleContext \<noteq> 0" "BlockHeight (exampleContext\<lparr>BlockHeight := 0\<rparr>) = 0"
    by (simp_all add: exampleContext_def)
  from setGasMeter_construction [of True exampleContext 50000 exampleEnv 0 0 "[]"]
  have 1: "setGasMeter True exampleContext 50000 = exampleContext\<lparr>GasMeter := infiniteGasMeter 0\<rparr>"
    by simp
  from setGasMeter_construction [of False "exampleContext\<lparr>BlockHeight := 0\<rparr>" 50000 exampleEnv 0 0 "[]"] h
  have 2: "setGasMeter False (exampleContext\<lparr>BlockHeight := 0\<rparr>) 50000
       = exampleContext\<lparr>BlockHeight := 0, GasMeter := infiniteGasMeter 0\<rparr>"
    by simp
  from setGasMeter_construction [of False exampleContext 50000 exampleEnv 100 0 "[]"] h
  have 3: "setGasMeter False exampleContext 50000
       = exampleContext\<lparr>GasMeter := gasMeterWithBase 50000 0 (102 / 100) 285\<rparr>"
    and 4: "GasConsumed exampleEnv (gasMeterWithBase 50000 100 (102 / 100) 285) = 100"
    by simp_all
  from setGasMeter_construction [of False exampleContext 50000 exampleEnv 300 0 "[]"]
  have 5: "GasConsumed exampleEnv (gasMeterWithBase 50000 300 (102 / 100) 285)
       = LogGas exampleEnv (102 / 100) 300"
    by simp
  from setGasMeter_construction [of False exampleContext 50000 exampleEnv 0 100 "''ante verify: secp256k1''"]
  have 6: "ConsumeGas exampleEnv (gasMeterWithBase 50000 0 (102 / 100) 285) 100 ''ante verify: secp256k1''
       = Inr (gasMeterWithBase 50000 100 (102 / 100) 285)"
    by simp
  from setGasMeter_construction [of False exampleContext 50 exampleEnv 0 100 "''ante verify: secp256k1''"]
  have 7: "ConsumeGas exampleEnv (gasMeterWithBase 50 0 (102 / 100) 285) 100 ''ante verify: secp256k1''
       = Inl (ErrorOutOfGas ''ante verify: secp256k1'', gasMeterWithBase 50 100 (102 / 100) 285)"
    by simp
  from 1 2 3 4 5 6 7 show ?thesis by blast
qed

subsection \<open>The stages of the handler\<close>

paragraph \<open>Signer accounts\<close>

lemma getSignerAccs_Inr:
  "getSignerAccs K addrs = Inr accs \<Longrightarrow>
   length accs = length addrs \<and> (\<forall>j<length addrs. Accounts K (addrs ! j) = Some (accs ! j))"
proof (induction addrs arbitrary: accs)
  case Nil
  then show ?case by simp
next
  case (Cons a addrs)
  from Cons.prems obtain acc rest where
    acc: "Accounts K a = Some acc" and rest: "getSignerAccs K addrs = Inr rest"
    and accs: "accs = acc # rest"
    by (auto simp: GetAccount_def split: option.splits sum.splits)
  from Cons.IH [OF rest] acc accs show ?case
    by (auto simp: nth_Cons split: nat.splits)
qed

lemma getSignerAccs_total:
  "\<forall>a\<in>set addrs. Accounts K a \<noteq> None \<Longrightarrow> \<exists>accs. getSignerAccs K addrs = Inr accs"
  by (induction addrs) (auto simp: GetAccount_def split: option.splits sum.splits)

lemma getSignerAccs_Inl:
  "getSignerAccs K addrs = Inl res \<Longrightarrow> Code res = CodeUnknownAddress"
  by (induction addrs arbitrary: res)
     (auto simp: ErrUnknownAddress_def errResult_def split: option.splits sum.splits)

paragraph \<open>Validation, inverted\<close>

lemma validate_loop_Inr_OK:
  "validateAccNumAndSequence_loop h accs sigs k = Inr r \<Longrightarrow> IsOK r \<Longrightarrow>
   \<forall>j. k \<le> j \<and> j < length accs \<longrightarrow> j < length sigs \<and> signerOK h (accs ! j) (sigs ! j)"
proof (induction h accs sigs k rule: validateAccNumAndSequence_loop.induct)
  case (1 height accs sigs i)
  show ?case
  proof (cases "i < length accs")
    case False
    then show ?thesis by auto
  next
    case True
    from "1.prems" True have il: "i < length sigs"
      by (subst (asm) validateAccNumAndSequence_loop.simps) (auto split: if_splits)
    from "1.prems" True il have ok: "signerOK height (accs ! i) (sigs ! i)"
      and rest: "validateAccNumAndSequence_loop height accs sigs (i + 1) = Inr r"
      by (subst (asm) validateAccNumAndSequence_loop.simps;
          auto simp: Let_def signerOK_def accNumOK_def sequenceOK_def IsOK_def
                     ErrInvalidSequence_def errResult_def split: if_splits)+
    have "\<forall>j. i + 1 \<le> j \<and> j < length accs \<longrightarrow> j < length sigs \<and> signerOK height (accs ! j) (sigs ! j)"
      using True il ok rest "1.prems"(2)
      by (intro "1.IH") (auto simp: signerOK_def accNumOK_def sequenceOK_def split: if_splits)
    with il ok show ?thesis
      by (metis Suc_eq_plus1 Suc_leI le_neq_implies_less)
  qed
qed

lemma validate_Inr_not_OK:
  "validateAccNumAndSequence_loop h accs sigs k = Inr r \<Longrightarrow> \<not> IsOK r \<Longrightarrow>
   Code r = CodeInvalidSequence"
proof (induction h accs sigs k rule: validateAccNumAndSequence_loop.induct)
  case (1 height accs sigs i)
  from "1.prems" show ?case
    apply (subst (asm) validateAccNumAndSequence_loop.simps)
    apply (auto simp: Let_def IsOK_def ErrInvalidSequence_def errResult_def emptyResult_def
                split: if_splits intro: "1.IH")
    done
qed

paragraph \<open>The store\<close>

lemma foldl_SetAccount_fees [simp]:
  "CollectedFees (foldl SetAccount K xs) = CollectedFees K"
  by (induction xs arbitrary: K) (simp_all add: SetAccount_def)

lemma foldl_SetAccount_in:
  "a \<in> GetAddress ` set xs \<Longrightarrow>
   \<exists>x\<in>set xs. GetAddress x = a \<and> Accounts (foldl SetAccount K xs) a = Some x"
proof (induction xs rule: rev_induct)
  case Nil
  then show ?case by simp
next
  case (snoc x xs)
  show ?case
  proof (cases "GetAddress x = a")
    case True
    then show ?thesis by (auto simp: SetAccount_def)
  next
    case False
    with snoc.prems have "a \<in> GetAddress ` set xs" by auto
    from snoc.IH [OF this] False show ?thesis by (auto simp: SetAccount_def)
  qed
qed

lemma foldl_SetAccount_notin:
  "a \<notin> GetAddress ` set xs \<Longrightarrow> Accounts (foldl SetAccount K xs) a = Accounts K a"
  by (induction xs rule: rev_induct) (auto simp: SetAccount_def)

paragraph \<open>One signature\<close>

lemma processSig_Inr_Inr:
  "processSig env ctx acc sig sb sim = Inr (m, Inr acc') \<Longrightarrow>
   \<exists>pk. acc' = acc\<lparr>GetPubKey := Some pk, GetSequence := GetSequence acc + 1\<rparr>"
  by (auto simp: processSig_def Let_def SetPubKey_def SetSequence_def
           split: sum.splits prod.splits if_splits)

lemma processSig_Inr_Inl:
  "processSig env ctx acc sig sb sim = Inr (m, Inl res) \<Longrightarrow> \<not> IsOK res"
  by (auto simp: processSig_def processPubKey_def Let_def IsOK_def ErrInvalidPubKey_def
        ErrUnauthorized_def errResult_def
      split: sum.splits prod.splits if_splits option.splits)

lemma processSig_meter_only:
  "GasMeter ctx = GasMeter ctx' \<Longrightarrow>
   processSig env ctx acc sig sb sim = processSig env ctx' acc sig sb sim"
  by (simp add: processSig_def split: sum.splits)

paragraph \<open>The loop over the signatures\<close>

lemma loop_Inr:
  "processSigs_loop env c sim sigs sbl i accs K = Inr (c', accs', K') \<Longrightarrow>
   length accs' = length accs \<and>
   (i < length sigs \<longrightarrow> length sigs \<le> length accs) \<and>
   (\<forall>j<length accs.
      if i \<le> j \<and> j < length sigs
      then (\<exists>pk. accs' ! j = (accs ! j)\<lparr>GetPubKey := Some pk, GetSequence := GetSequence (accs ! j) + 1\<rparr>)
      else accs' ! j = accs ! j) \<and>
   K' = foldl SetAccount K (take (length sigs - i) (drop i accs')) \<and>
   c' = c\<lparr>GasMeter := GasMeter c'\<rparr>"
proof (induction env c sim sigs sbl i accs K rule: processSigs_loop.induct)
  case (1 env newCtx simulate stdSigs signBytesList i signerAccs K)
  show ?case
  proof (cases "i < length stdSigs")
    case False
    with "1.prems" show ?thesis
      by (subst (asm) processSigs_loop.simps) auto
  next
    case True
    from "1.prems" True have inr: "i < length signerAccs \<and> i < length signBytesList"
      by (subst (asm) processSigs_loop.simps) (auto split: if_splits)
    with "1.prems" True obtain meter acc where
      one: "processSig env newCtx (signerAccs ! i) (stdSigs ! i) (signBytesList ! i) simulate
              = Inr (meter, Inr acc)"
      and rest: "processSigs_loop env (newCtx\<lparr>GasMeter := meter\<rparr>) simulate stdSigs signBytesList
                   (i + 1) (signerAccs[i := acc]) (SetAccount K acc) = Inr (c', accs', K')"
      by (subst (asm) processSigs_loop.simps) (auto split: sum.splits prod.splits)
    from inr have ninr: "\<not> \<not> (i < length signerAccs \<and> i < length signBytesList)" by simp
    note IH = "1.IH" [OF True ninr one refl refl rest]
    from processSig_Inr_Inr [OF one] obtain pk where
      acc: "acc = (signerAccs ! i)\<lparr>GetPubKey := Some pk, GetSequence := GetSequence (signerAccs ! i) + 1\<rparr>"
      by blast
    from IH have len: "length accs' = length signerAccs" by simp
    from IH inr have ati: "accs' ! i = acc" by (auto split: if_splits)
    have lens: "length stdSigs \<le> length signerAccs"
    proof (cases "i + 1 < length stdSigs")
      case True
      with IH show ?thesis by simp
    next
      case False
      with True inr show ?thesis by simp
    qed
    have elems: "\<forall>j<length signerAccs.
      if i \<le> j \<and> j < length stdSigs
      then (\<exists>pk. accs' ! j = (signerAccs ! j)\<lparr>GetPubKey := Some pk,
                     GetSequence := GetSequence (signerAccs ! j) + 1\<rparr>)
      else accs' ! j = signerAccs ! j"
    proof (intro allI impI)
      fix j assume j: "j < length signerAccs"
      show "if i \<le> j \<and> j < length stdSigs
        then (\<exists>pk. accs' ! j = (signerAccs ! j)\<lparr>GetPubKey := Some pk,
                     GetSequence := GetSequence (signerAccs ! j) + 1\<rparr>)
        else accs' ! j = signerAccs ! j"
      proof (cases "j = i")
        case True
        with ati acc \<open>i < length stdSigs\<close> show ?thesis by auto
      next
        case False
        with IH j show ?thesis by (auto split: if_splits)
      qed
    qed
    have "take (length stdSigs - i) (drop i accs') =
            accs' ! i # take (length stdSigs - (i + 1)) (drop (i + 1) accs')"
    proof -
      from inr len have "drop i accs' = accs' ! i # drop (Suc i) accs'"
        by (metis Cons_nth_drop_Suc)
      moreover from True have "length stdSigs - i = Suc (length stdSigs - (i + 1))" by simp
      ultimately show ?thesis by simp
    qed
    with IH ati have store: "K' = foldl SetAccount K (take (length stdSigs - i) (drop i accs'))"
      by simp
    from IH have ctx: "c' = newCtx\<lparr>GasMeter := GasMeter c'\<rparr>"
    proof -
      from IH have "c' = newCtx\<lparr>GasMeter := meter\<rparr>\<lparr>GasMeter := GasMeter c'\<rparr>" by blast
      then show ?thesis by simp
    qed
    from len lens elems store ctx show ?thesis by blast
  qed
qed


lemma consumeSig_result:
  "consumeSignatureVerificationGas env m sig pk = Inr (m', res) \<Longrightarrow>
   res = emptyResult \<or> Code res = CodeInvalidPubKey"
proof (cases pk)
  case (PubKeyEd25519 k)
  then show "consumeSignatureVerificationGas env m sig pk = Inr (m', res) \<Longrightarrow> ?thesis"
    by (auto simp: consumeSig_ed25519 split: sum.splits)
next
  case (PubKeySecp256k1 k)
  then show "consumeSignatureVerificationGas env m sig pk = Inr (m', res) \<Longrightarrow> ?thesis"
    by (auto simp: consumeSig_secp256k1 split: sum.splits)
next
  case (PubKeyMultisigThreshold k pks)
  then show "consumeSignatureVerificationGas env m sig pk = Inr (m', res) \<Longrightarrow> ?thesis"
    by (auto dest: consumeSig_multisig_result)
next
  case (PubKeyOther name k)
  then show "consumeSignatureVerificationGas env m sig pk = Inr (m', res) \<Longrightarrow> ?thesis"
    by (auto simp: consumeSig_other ErrInvalidPubKey_def errResult_def
             split: sum.splits if_splits option.splits)
qed

lemma processSig_Inl_code:
  "processSig env ctx acc sig sb sim = Inr (m, Inl res) \<Longrightarrow>
   Code res = CodeInvalidPubKey \<or> Code res = CodeUnauthorized"
proof -
  assume run: "processSig env ctx acc sig sb sim = Inr (m, Inl res)"
  show ?thesis
  proof (cases "processPubKey env acc sig sim")
    case (Inl r)
    with run have "res = r" by (simp add: processSig_def)
    with Inl show ?thesis
      by (auto simp: processPubKey_def Let_def ErrInvalidPubKey_def errResult_def
               split: if_splits option.splits)
  next
    case (Inr pk)
    with run obtain m1 r1 where
      c: "consumeSignatureVerificationGas env (GasMeter ctx) (Signature sig) pk = Inr (m1, r1)"
      by (auto simp: processSig_def Let_def split: sum.splits)
    from consumeSig_result [OF c] run Inr c show ?thesis
      by (auto simp: processSig_def Let_def IsOK_def emptyResult_def ErrUnauthorized_def
                     errResult_def split: if_splits)
  qed
qed

lemma loop_Return:
  "processSigs_loop env c sim sigs sbl i accs K = Inl (Return c' res abort K') \<Longrightarrow>
   abort \<and> (Code res = CodeInvalidPubKey \<or> Code res = CodeUnauthorized) \<and>
   c' = c\<lparr>GasMeter := GasMeter c'\<rparr>"
proof (induction env c sim sigs sbl i accs K rule: processSigs_loop.induct)
  case (1 env newCtx simulate stdSigs signBytesList i signerAccs K)
  from "1.prems" have il: "i < length stdSigs"
    and inr: "\<not> \<not> (i < length signerAccs \<and> i < length signBytesList)"
    by (subst (asm) processSigs_loop.simps; auto split: if_splits)+
  show ?case
  proof (cases "processSig env newCtx (signerAccs ! i) (stdSigs ! i) (signBytesList ! i) simulate")
    case (Inl pm)
    with "1.prems" il inr show ?thesis
      by (subst (asm) processSigs_loop.simps) (auto split: prod.splits)
  next
    case (Inr mr)
    obtain meter r where mr: "mr = (meter, r)" by (cases mr)
    show ?thesis
    proof (cases r)
      case (Inl e)
      with "1.prems" il inr Inr mr have "c' = newCtx\<lparr>GasMeter := meter\<rparr>" "res = e" "abort"
        by (subst (asm) processSigs_loop.simps; simp)+
      with processSig_Inl_code [of env newCtx _ _ _ simulate meter e] Inr mr Inl show ?thesis
        by simp
    next
      case (Inr acc)
      with "1.prems" il inr \<open>processSig env newCtx (signerAccs ! i) (stdSigs ! i) (signBytesList ! i) simulate = Inr mr\<close> mr
      have rest: "processSigs_loop env (newCtx\<lparr>GasMeter := meter\<rparr>) simulate stdSigs signBytesList
                   (i + 1) (signerAccs[i := acc]) (SetAccount K acc) = Inl (Return c' res abort K')"
        by (subst (asm) processSigs_loop.simps) simp
      from "1.IH" [OF il inr _ refl refl rest] \<open>processSig env newCtx (signerAccs ! i) (stdSigs ! i) (signBytesList ! i) simulate = Inr mr\<close> mr Inr
      have "abort \<and> (Code res = CodeInvalidPubKey \<or> Code res = CodeUnauthorized) \<and>
            c' = newCtx\<lparr>GasMeter := meter\<rparr>\<lparr>GasMeter := GasMeter c'\<rparr>"
        by simp
      then show ?thesis by simp
    qed
  qed
qed

lemma loop_Panic:
  "processSigs_loop env c sim sigs sbl i accs K = Inl (Panic p c' K') \<Longrightarrow>
   c' = c\<lparr>GasMeter := GasMeter c'\<rparr>"
proof (induction env c sim sigs sbl i accs K rule: processSigs_loop.induct)
  case (1 env newCtx simulate stdSigs signBytesList i signerAccs K)
  from "1.prems" have il: "i < length stdSigs"
    by (subst (asm) processSigs_loop.simps) (auto split: if_splits)
  show ?case
  proof (cases "i < length signerAccs \<and> i < length signBytesList")
    case False
    with "1.prems" il show ?thesis
      by (subst (asm) processSigs_loop.simps) auto
  next
    case True
    then have inr: "\<not> \<not> (i < length signerAccs \<and> i < length signBytesList)" by simp
    show ?thesis
    proof (cases "processSig env newCtx (signerAccs ! i) (stdSigs ! i) (signBytesList ! i) simulate")
      case (Inl pm)
      with "1.prems" il True show ?thesis
        by (subst (asm) processSigs_loop.simps) (auto split: prod.splits)
    next
      case (Inr mr)
      obtain meter r where mr: "mr = (meter, r)" by (cases mr)
      show ?thesis
      proof (cases r)
        case (Inl e)
        with "1.prems" il True Inr mr show ?thesis
          by (subst (asm) processSigs_loop.simps) simp
      next
        case r: (Inr acc)
        with "1.prems" il True Inr mr
        have rest: "processSigs_loop env (newCtx\<lparr>GasMeter := meter\<rparr>) simulate stdSigs signBytesList
                     (i + 1) (signerAccs[i := acc]) (SetAccount K acc) = Inl (Panic p c' K')"
          by (subst (asm) processSigs_loop.simps) simp
        from "1.IH" [OF il inr _ refl refl rest] Inr mr r
        have "c' = newCtx\<lparr>GasMeter := meter\<rparr>\<lparr>GasMeter := GasMeter c'\<rparr>" by simp
        then show ?thesis by simp
      qed
    qed
  qed
qed

paragraph \<open>The fee stage and the code under the recovery\<close>

lemma deductFees_Inl:
  "(\<exists>d. AmountOf (GetCoins acc) d < AmountOf (Amount fee) d) \<Longrightarrow>
   deductFees acc fee =
     Inl (ErrInsufficientFunds
            (Sprintf ''account balance [%s] is not enough to cover fee [%s]''
               [CoinsArg (GetCoins acc), CoinsArg (Amount fee)]))"
  using hasNeg_SafeSub [of "GetCoins acc" "Amount fee"]
  by (simp add: deductFees_def Let_def case_prod_beta)

lemma deductFees_Inr:
  "\<not> (\<exists>d. AmountOf (GetCoins acc) d < AmountOf (Amount fee) d) \<Longrightarrow>
   deductFees acc fee = Inr (acc\<lparr>GetCoins := fst (SafeSub (GetCoins acc) (Amount fee))\<rparr>)"
  using hasNeg_SafeSub [of "GetCoins acc" "Amount fee"]
  by (simp add: deductFees_def Let_def SetCoins_def case_prod_beta)

lemma deductFees_cases:
  "deductFees acc fee = Inr acc' \<Longrightarrow>
   acc' = acc\<lparr>GetCoins := fst (SafeSub (GetCoins acc) (Amount fee))\<rparr> \<and>
   (\<forall>d. AmountOf (Amount fee) d \<le> AmountOf (GetCoins acc) d)"
  using deductFees_Inl [of acc fee] deductFees_Inr [of acc fee]
  by (cases "\<exists>d. AmountOf (GetCoins acc) d < AmountOf (Amount fee) d") (auto simp: not_less)

lemma deductFees_Inl_code:
  "deductFees acc fee = Inl res \<Longrightarrow> Code res = CodeInsufficientFunds"
  by (auto simp: deductFees_def Let_def ErrInsufficientFunds_def errResult_def case_prod_beta
           split: if_splits)

lemma deductFeeStage_Inr:
  "deductFeeStage c tx accs K = Inr (accs1, K1) \<Longrightarrow>
   length accs1 = length accs \<and>
   (\<forall>j<length accs. j \<noteq> 0 \<longrightarrow> accs1 ! j = accs ! j) \<and>
   (accs \<noteq> [] \<longrightarrow>
      (\<exists>coins. accs1 ! 0 = (accs ! 0)\<lparr>GetCoins := coins\<rparr> \<and>
         (\<forall>d. AmountOf coins d = AmountOf (GetCoins (accs ! 0)) d - AmountOf (Amount (Fee tx)) d) \<and>
         (\<not> IsZero (Amount (Fee tx)) \<longrightarrow> (\<forall>d. 0 \<le> AmountOf coins d)))) \<and>
   Accounts K1 = Accounts K \<and>
   (\<forall>d. AmountOf (CollectedFees K1) d = AmountOf (CollectedFees K) d + AmountOf (Amount (Fee tx)) d)"
proof (cases "IsZero (Amount (Fee tx))")
  case True
  assume "deductFeeStage c tx accs K = Inr (accs1, K1)"
  with True have eq: "accs1 = accs" "K1 = K" by (simp_all add: deductFeeStage_def)
  from True have z: "\<forall>d. AmountOf (Amount (Fee tx)) d = 0" by (simp add: IsZero_iff)
  from eq z True show ?thesis
    by (auto intro!: exI [of _ "GetCoins (accs ! 0)"])
next
  case False
  assume run: "deductFeeStage c tx accs K = Inr (accs1, K1)"
  with False obtain acc0 rest acc where accs: "accs = acc0 # rest"
    and d: "deductFees acc0 (Fee tx) = Inr acc"
    and eq: "accs1 = accs[0 := acc]" "K1 = AddCollectedFees K (Amount (Fee tx))"
    by (auto simp: deductFeeStage_def split: list.splits sum.splits)
  from deductFees_cases [OF d] accs eq show ?thesis
    by (auto simp: AmountOf_SafeSub AmountOf_CoinsAdd AddCollectedFees_def nth_Cons split: nat.splits)
qed

lemma deductFeeStage_Inl_Return:
  "deductFeeStage c tx accs K = Inl (Return c' res abort K') \<Longrightarrow>
   abort \<and> Code res = CodeInsufficientFunds \<and> c' = c \<and> K' = K"
  by (auto simp: deductFeeStage_def split: if_splits list.splits sum.splits
           dest: deductFees_Inl_code)

lemma deductFeeStage_Inl_Panic:
  "deductFeeStage c tx accs K = Inl (Panic p c' K') \<Longrightarrow>
   p = IndexOutOfRange \<and> c' = c \<and> K' = K"
  by (auto simp: deductFeeStage_def split: if_splits list.splits sum.splits)

lemma anteBody_success:
  assumes "anteBody env K ctx newCtx tx sim = Return c res False K'"
  shows "\<exists>accs accs1 K1 c2 accs2 r.
     ValidateBasic env tx = None \<and>
     getSignerAccs K (GetSigners env tx) = Inr accs \<and>
     validateAccNumAndSequence ctx accs (Signatures tx) = Inr r \<and> IsOK r \<and>
     deductFeeStage newCtx tx accs K = Inr (accs1, K1) \<and>
     processSigs_loop env newCtx sim (Signatures tx)
       (getSignBytesList env (ChainID newCtx) tx (Signatures tx)) 0 accs1 K1 = Inr (c2, accs2, K') \<and>
     c = c2\<lparr>Signers := accs2\<rparr> \<and> res = emptyResult\<lparr>GasWanted := Gas (Fee tx)\<rparr>"
  using assms
  unfolding anteBody_def Let_def
  by (auto split: option.splits sum.splits if_splits prod.splits
           dest: deductFeeStage_Inl_Return loop_Return)

lemma anteBody_Panic:
  "anteBody env K ctx newCtx tx sim = Panic p c K' \<Longrightarrow> c = newCtx\<lparr>GasMeter := GasMeter c\<rparr>"
  unfolding anteBody_def Let_def
  by (auto split: option.splits sum.splits if_splits prod.splits
           dest: deductFeeStage_Inl_Panic loop_Panic)

lemma anteBody_Return:
  "anteBody env K ctx newCtx tx sim = Return c res abort K' \<Longrightarrow>
   (abort \<and> (K' = K \<or> Code res = CodeInvalidPubKey \<or> Code res = CodeUnauthorized)) \<or>
   (\<not> abort \<and> Code res = CodeOK)"
  unfolding anteBody_def Let_def
  by (auto simp: emptyResult_def split: option.splits sum.splits if_splits prod.splits
           dest: deductFeeStage_Inl_Return loop_Return)

lemma NewAnteHandler_success:
  assumes "NewAnteHandler env K ctx (StdTxOf tx) sim = Returns c res False K'"
  shows "\<exists>c0. c = Some c0 \<and>
     \<not> (IsCheckTx ctx \<and> \<not> sim \<and> \<not> IsOK (ensureSufficientMempoolFees ctx tx)) \<and>
     anteBody env K ctx (setGasMeter sim ctx (Gas (Fee tx))) tx sim = Return c0 res False K'"
  using assms
  by (auto simp: NewAnteHandler_def recoverOutOfGas_def Let_def
           split: if_splits outcome.splits panic.splits)

lemma NewAnteHandler_insufficient_funds:
  assumes "NewAnteHandler env K ctx tx sim = Returns c res abort K'"
    and "Code res = CodeInsufficientFunds"
  shows "abort \<and> K' = K"
proof (cases tx)
  case OtherTx
  with assms show ?thesis
    by (auto simp: NewAnteHandler_def ErrInternal_def errResult_def)
next
  case (StdTxOf stdTx)
  show ?thesis
  proof (cases "IsCheckTx ctx \<and> \<not> sim \<and> \<not> IsOK (ensureSufficientMempoolFees ctx stdTx)")
    case True
    with assms StdTxOf show ?thesis
      by (auto simp: NewAnteHandler_def)
  next
    case False
    with assms StdTxOf have
      r: "recoverOutOfGas env stdTx
            (anteBody env K ctx (setGasMeter sim ctx (Gas (Fee stdTx))) stdTx sim)
          = Returns c res abort K'"
      by (auto simp: NewAnteHandler_def Let_def)
    show ?thesis
    proof (cases "anteBody env K ctx (setGasMeter sim ctx (Gas (Fee stdTx))) stdTx sim")
      case (Panic p c1 K1)
      with r assms(2) show ?thesis
        by (auto simp: recoverOutOfGas_def ErrOutOfGas_def errResult_def split: panic.splits)
    next
      case (Return c1 r1 a1 K1)
      with r have "r1 = res" "a1 = abort" "K1 = K'" by (simp_all add: recoverOutOfGas_def)
      with anteBody_Return [OF Return] assms(2) show ?thesis by auto
    qed
  qed
qed

subsection \<open>Fee deduction\<close>

text \<open>
  C4. \<^verbatim>\<open>deductFees\<close> rejects with an insufficient-funds error when the balance is less
  than the fee in some denomination; otherwise it returns the account with every amount
  reduced by exactly the fee, and no amount of the new balance is negative. In the handler,
  a result with the insufficient-funds code aborts with the account store and the fee
  collector as they were. When the handler succeeds, the fee collector has received
  exactly the fee amount, the first signer's balance is its stored balance less the fee,
  every other signer's balance is its stored balance, and with a zero fee amount nothing is
  deducted and nothing collected.
\<close>

theorem deductFees_first_signer:
  "((\<exists>d. AmountOf (GetCoins acc) d < AmountOf (Amount fee) d) \<longrightarrow>
      deductFees acc fee =
        Inl (ErrInsufficientFunds
               (Sprintf ''account balance [%s] is not enough to cover fee [%s]''
                  [CoinsArg (GetCoins acc), CoinsArg (Amount fee)])))
   \<and> Code (ErrInsufficientFunds m) = CodeInsufficientFunds
   \<and> ((\<forall>d. AmountOf (Amount fee) d \<le> AmountOf (GetCoins acc) d) \<longrightarrow>
        (\<exists>coins. deductFees acc fee = Inr (acc\<lparr>GetCoins := coins\<rparr>) \<and>
           (\<forall>d. AmountOf coins d = AmountOf (GetCoins acc) d - AmountOf (Amount fee) d) \<and>
           (\<forall>d. 0 \<le> AmountOf coins d)))
   \<and> (NewAnteHandler env K ctx tx' sim = Returns c' res' abort K'' \<and>
        Code res' = CodeInsufficientFunds \<longrightarrow> abort \<and> K'' = K)
   \<and> (NewAnteHandler env K ctx (StdTxOf tx) sim = Returns c res False K' \<longrightarrow>
        (\<forall>d. AmountOf (CollectedFees K') d =
               AmountOf (CollectedFees K) d + AmountOf (Amount (Fee tx)) d) \<and>
        (IsZero (Amount (Fee tx)) \<longrightarrow> CollectedFees K' = CollectedFees K) \<and>
        (\<exists>c0. c = Some c0 \<and> length (Signers c0) = length (GetSigners env tx) \<and>
           (\<forall>j<length (GetSigners env tx).
              \<exists>acc. Accounts K (GetSigners env tx ! j) = Some acc \<and>
                (\<forall>d. AmountOf (GetCoins (Signers c0 ! j)) d =
                       AmountOf (GetCoins acc) d -
                       (if j = 0 then AmountOf (Amount (Fee tx)) d else 0)) \<and>
                (j \<noteq> 0 \<or> IsZero (Amount (Fee tx)) \<longrightarrow> GetCoins (Signers c0 ! j) = GetCoins acc))))"
proof -
  have A: "(\<exists>d. AmountOf (GetCoins acc) d < AmountOf (Amount fee) d) \<longrightarrow>
      deductFees acc fee =
        Inl (ErrInsufficientFunds
               (Sprintf ''account balance [%s] is not enough to cover fee [%s]''
                  [CoinsArg (GetCoins acc), CoinsArg (Amount fee)]))"
    by (auto intro: deductFees_Inl)
  have B: "Code (ErrInsufficientFunds m) = CodeInsufficientFunds"
    by (simp add: ErrInsufficientFunds_def errResult_def)
  have C: "(\<forall>d. AmountOf (Amount fee) d \<le> AmountOf (GetCoins acc) d) \<longrightarrow>
        (\<exists>coins. deductFees acc fee = Inr (acc\<lparr>GetCoins := coins\<rparr>) \<and>
           (\<forall>d. AmountOf coins d = AmountOf (GetCoins acc) d - AmountOf (Amount fee) d) \<and>
           (\<forall>d. 0 \<le> AmountOf coins d))"
  proof
    assume ge: "\<forall>d. AmountOf (Amount fee) d \<le> AmountOf (GetCoins acc) d"
    then have "\<not> (\<exists>d. AmountOf (GetCoins acc) d < AmountOf (Amount fee) d)"
      by (simp add: not_less)
    from deductFees_Inr [OF this] ge
    show "\<exists>coins. deductFees acc fee = Inr (acc\<lparr>GetCoins := coins\<rparr>) \<and>
           (\<forall>d. AmountOf coins d = AmountOf (GetCoins acc) d - AmountOf (Amount fee) d) \<and>
           (\<forall>d. 0 \<le> AmountOf coins d)"
      by (auto simp: AmountOf_SafeSub)
  qed
  have D: "NewAnteHandler env K ctx tx' sim = Returns c' res' abort K'' \<and>
        Code res' = CodeInsufficientFunds \<longrightarrow> abort \<and> K'' = K"
    using NewAnteHandler_insufficient_funds by blast
  have E: "NewAnteHandler env K ctx (StdTxOf tx) sim = Returns c res False K' \<longrightarrow>
        (\<forall>d. AmountOf (CollectedFees K') d =
               AmountOf (CollectedFees K) d + AmountOf (Amount (Fee tx)) d) \<and>
        (IsZero (Amount (Fee tx)) \<longrightarrow> CollectedFees K' = CollectedFees K) \<and>
        (\<exists>c0. c = Some c0 \<and> length (Signers c0) = length (GetSigners env tx) \<and>
           (\<forall>j<length (GetSigners env tx).
              \<exists>acc. Accounts K (GetSigners env tx ! j) = Some acc \<and>
                (\<forall>d. AmountOf (GetCoins (Signers c0 ! j)) d =
                       AmountOf (GetCoins acc) d -
                       (if j = 0 then AmountOf (Amount (Fee tx)) d else 0)) \<and>
                (j \<noteq> 0 \<or> IsZero (Amount (Fee tx)) \<longrightarrow> GetCoins (Signers c0 ! j) = GetCoins acc)))"
  proof
    assume run: "NewAnteHandler env K ctx (StdTxOf tx) sim = Returns c res False K'"
    let ?newCtx = "setGasMeter sim ctx (Gas (Fee tx))"
    from NewAnteHandler_success [OF run] obtain c0 where c: "c = Some c0"
      and body: "anteBody env K ctx ?newCtx tx sim = Return c0 res False K'"
      by blast
    from anteBody_success [OF body] obtain accs accs1 K1 c2 accs2 r where
      signers: "getSignerAccs K (GetSigners env tx) = Inr accs"
      and valid: "validateAccNumAndSequence ctx accs (Signatures tx) = Inr r" "IsOK r"
      and fee: "deductFeeStage ?newCtx tx accs K = Inr (accs1, K1)"
      and loop: "processSigs_loop env ?newCtx sim (Signatures tx)
         (getSignBytesList env (ChainID ?newCtx) tx (Signatures tx)) 0 accs1 K1 = Inr (c2, accs2, K')"
      and c0: "c0 = c2\<lparr>Signers := accs2\<rparr>"
      by blast
    note S = getSignerAccs_Inr [OF signers]
    note F = deductFeeStage_Inr [OF fee]
    note L = loop_Inr [OF loop]
    from L have K': "CollectedFees K' = CollectedFees K1" by simp
    with F have E1: "\<forall>d. AmountOf (CollectedFees K') d =
                 AmountOf (CollectedFees K) d + AmountOf (Amount (Fee tx)) d"
      by simp
    have E2: "IsZero (Amount (Fee tx)) \<longrightarrow> CollectedFees K' = CollectedFees K"
      using fee K' by (auto simp: deductFeeStage_def)
    have len: "length accs2 = length (GetSigners env tx)"
      using S F L by simp
    have each: "\<forall>j<length (GetSigners env tx).
                \<exists>acc. Accounts K (GetSigners env tx ! j) = Some acc \<and>
                  (\<forall>d. AmountOf (GetCoins (accs2 ! j)) d =
                         AmountOf (GetCoins acc) d -
                         (if j = 0 then AmountOf (Amount (Fee tx)) d else 0)) \<and>
                  (j \<noteq> 0 \<or> IsZero (Amount (Fee tx)) \<longrightarrow> GetCoins (accs2 ! j) = GetCoins acc)"
    proof (intro allI impI)
      fix j assume j: "j < length (GetSigners env tx)"
      with S have stored: "Accounts K (GetSigners env tx ! j) = Some (accs ! j)"
        and j': "j < length accs" "j < length accs1" using F by auto
      from L j' have coins2: "GetCoins (accs2 ! j) = GetCoins (accs1 ! j)"
        by (auto split: if_splits dest!: spec [of _ j])
      have coins1: "(\<forall>d. AmountOf (GetCoins (accs1 ! j)) d =
                         AmountOf (GetCoins (accs ! j)) d -
                         (if j = 0 then AmountOf (Amount (Fee tx)) d else 0)) \<and>
                  (j \<noteq> 0 \<or> IsZero (Amount (Fee tx)) \<longrightarrow> GetCoins (accs1 ! j) = GetCoins (accs ! j))"
      proof (cases "j = 0")
        case True
        with j' have ne: "accs \<noteq> []" by auto
        from F ne obtain coins where
          a: "accs1 ! 0 = (accs ! 0)\<lparr>GetCoins := coins\<rparr>"
          and b: "\<forall>d. AmountOf coins d = AmountOf (GetCoins (accs ! 0)) d - AmountOf (Amount (Fee tx)) d"
          by blast
        have "IsZero (Amount (Fee tx)) \<longrightarrow> GetCoins (accs1 ! 0) = GetCoins (accs ! 0)"
          using fee by (auto simp: deductFeeStage_def)
        with a b True show ?thesis by simp
      next
        case False
        with F j' show ?thesis by simp
      qed
      with stored coins2 show "\<exists>acc. Accounts K (GetSigners env tx ! j) = Some acc \<and>
                  (\<forall>d. AmountOf (GetCoins (accs2 ! j)) d =
                         AmountOf (GetCoins acc) d -
                         (if j = 0 then AmountOf (Amount (Fee tx)) d else 0)) \<and>
                  (j \<noteq> 0 \<or> IsZero (Amount (Fee tx)) \<longrightarrow> GetCoins (accs2 ! j) = GetCoins acc)"
        by simp
    qed
    from c c0 len each
    have E3: "\<exists>c0. c = Some c0 \<and> length (Signers c0) = length (GetSigners env tx) \<and>
             (\<forall>j<length (GetSigners env tx).
                \<exists>acc. Accounts K (GetSigners env tx ! j) = Some acc \<and>
                  (\<forall>d. AmountOf (GetCoins (Signers c0 ! j)) d =
                         AmountOf (GetCoins acc) d -
                         (if j = 0 then AmountOf (Amount (Fee tx)) d else 0)) \<and>
                  (j \<noteq> 0 \<or> IsZero (Amount (Fee tx)) \<longrightarrow> GetCoins (Signers c0 ! j) = GetCoins acc))"
      by simp
    from E1 E2 E3
    show "(\<forall>d. AmountOf (CollectedFees K') d =
                 AmountOf (CollectedFees K) d + AmountOf (Amount (Fee tx)) d) \<and>
          (IsZero (Amount (Fee tx)) \<longrightarrow> CollectedFees K' = CollectedFees K) \<and>
          (\<exists>c0. c = Some c0 \<and> length (Signers c0) = length (GetSigners env tx) \<and>
             (\<forall>j<length (GetSigners env tx).
                \<exists>acc. Accounts K (GetSigners env tx ! j) = Some acc \<and>
                  (\<forall>d. AmountOf (GetCoins (Signers c0 ! j)) d =
                         AmountOf (GetCoins acc) d -
                         (if j = 0 then AmountOf (Amount (Fee tx)) d else 0)) \<and>
                  (j \<noteq> 0 \<or> IsZero (Amount (Fee tx)) \<longrightarrow> GetCoins (Signers c0 ! j) = GetCoins acc)))"
      by (intro conjI)
  qed
  from A B C D E show ?thesis by (intro conjI)
qed

lemma handler_run_value:
  "(case NewAnteHandler exampleEnv exampleKeepers exampleContext (StdTxOf (exampleTx [0, 3])) False of
      Returns c res abort K' \<Rightarrow> \<not> abort
    | Panics p K' \<Rightarrow> False)"
  by code_simp

lemma handler_poor_value:
  "(case NewAnteHandler exampleEnv exampleKeepers exampleContext
           (StdTxOf ((exampleTx [0, 3])\<lparr>Fee := \<lparr>Amount = [(''iris'', 500)], Gas = 50000\<rparr>\<rparr>)) False of
      Returns c res abort K' \<Rightarrow> Code res = CodeInsufficientFunds
    | Panics p K' \<Rightarrow> False)"
  by code_simp

theorem deductFees_first_signer_witness:
  "deductFees
     \<lparr>GetAddress = [1], GetPubKey = None, GetCoins = [(''iris'', 5)], GetSequence = 0,
      GetAccountNumber = 0\<rparr>
     \<lparr>Amount = [(''iris'', 10)], Gas = 50000\<rparr>
   = Inl (ErrInsufficientFunds
            (Sprintf ''account balance [%s] is not enough to cover fee [%s]''
               [CoinsArg [(''iris'', 5)], CoinsArg [(''iris'', 10)]]))
   \<and> (\<exists>coins.
        deductFees
          \<lparr>GetAddress = [1], GetPubKey = None, GetCoins = [(''iris'', 100)], GetSequence = 0,
           GetAccountNumber = 0\<rparr>
          \<lparr>Amount = [(''iris'', 10)], Gas = 50000\<rparr>
        = Inr \<lparr>GetAddress = [1], GetPubKey = None, GetCoins = coins, GetSequence = 0,
               GetAccountNumber = 0\<rparr>
        \<and> AmountOf coins ''iris'' = 90)
   \<and> (case NewAnteHandler exampleEnv exampleKeepers exampleContext (StdTxOf (exampleTx [0, 3])) False of
        Returns c res abort K' \<Rightarrow>
          \<not> abort \<and> AmountOf (CollectedFees K') ''iris'' = 10 \<and>
          (case c of
             Some c0 \<Rightarrow> AmountOf (GetCoins (Signers c0 ! 0)) ''iris'' = 90
           | None \<Rightarrow> False)
      | Panics p K' \<Rightarrow> False)
   \<and> (case NewAnteHandler exampleEnv exampleKeepers exampleContext
             (StdTxOf ((exampleTx [0, 3])\<lparr>Fee := \<lparr>Amount = [(''iris'', 500)], Gas = 50000\<rparr>\<rparr>)) False of
        Returns c res abort K' \<Rightarrow> abort \<and> K' = exampleKeepers
      | Panics p K' \<Rightarrow> False)"
proof -
  let ?poor = "\<lparr>GetAddress = [1], GetPubKey = None, GetCoins = [(''iris'', 5)], GetSequence = 0,
      GetAccountNumber = 0\<rparr>"
  let ?rich = "\<lparr>GetAddress = [1], GetPubKey = None, GetCoins = [(''iris'', 100)], GetSequence = 0,
      GetAccountNumber = 0\<rparr>"
  let ?fee = "\<lparr>Amount = [(''iris'', 10)], Gas = 50000\<rparr>"
  let ?tx = "exampleTx [0, 3]"
  let ?tx' = "(exampleTx [0, 3])\<lparr>Fee := \<lparr>Amount = [(''iris'', 500)], Gas = 50000\<rparr>\<rparr>"
  from handler_run_value obtain c res K' where
    run: "NewAnteHandler exampleEnv exampleKeepers exampleContext (StdTxOf ?tx) False
            = Returns c res False K'"
    by (cases "NewAnteHandler exampleEnv exampleKeepers exampleContext (StdTxOf ?tx) False") auto
  from handler_poor_value obtain c' res' abort K'' where
    run': "NewAnteHandler exampleEnv exampleKeepers exampleContext (StdTxOf ?tx') False
            = Returns c' res' abort K''"
    and code: "Code res' = CodeInsufficientFunds"
    by (cases "NewAnteHandler exampleEnv exampleKeepers exampleContext (StdTxOf ?tx') False") auto
  have less: "\<exists>d. AmountOf (GetCoins ?poor) d < AmountOf (Amount ?fee) d"
    by (rule exI [of _ "''iris''"]) (simp add: AmountOf_def)
  have enough: "\<forall>d. AmountOf (Amount ?fee) d \<le> AmountOf (GetCoins ?rich) d"
    by (simp add: AmountOf_def)
  from deductFees_first_signer [of ?poor ?fee undefined exampleEnv exampleKeepers exampleContext
      "StdTxOf ?tx'" False c' res' abort K'' ?tx c res K'] less
  have 1: "deductFees ?poor ?fee
     = Inl (ErrInsufficientFunds
              (Sprintf ''account balance [%s] is not enough to cover fee [%s]''
                 [CoinsArg [(''iris'', 5)], CoinsArg [(''iris'', 10)]]))"
    by simp
  from deductFees_first_signer [of ?rich ?fee undefined exampleEnv exampleKeepers exampleContext
      "StdTxOf ?tx'" False c' res' abort K'' ?tx c res K'] enough
  obtain coins where
    "deductFees ?rich ?fee = Inr (?rich\<lparr>GetCoins := coins\<rparr>)"
    "\<forall>d. AmountOf coins d = AmountOf (GetCoins ?rich) d - AmountOf (Amount ?fee) d"
    by blast
  then have 2: "\<exists>coins. deductFees ?rich ?fee
        = Inr \<lparr>GetAddress = [1], GetPubKey = None, GetCoins = coins, GetSequence = 0,
               GetAccountNumber = 0\<rparr>
        \<and> AmountOf coins ''iris'' = 90"
    by (auto simp: AmountOf_def)
  from deductFees_first_signer [of ?rich ?fee undefined exampleEnv exampleKeepers exampleContext
      "StdTxOf ?tx'" False c' res' abort K'' ?tx c res K'] run run' code
  have fees: "\<forall>d. AmountOf (CollectedFees K') d =
               AmountOf (CollectedFees exampleKeepers) d + AmountOf (Amount (Fee ?tx)) d"
    and ctx: "\<exists>c0. c = Some c0 \<and> length (Signers c0) = length (GetSigners exampleEnv ?tx) \<and>
           (\<forall>j<length (GetSigners exampleEnv ?tx).
              \<exists>acc. Accounts exampleKeepers (GetSigners exampleEnv ?tx ! j) = Some acc \<and>
                (\<forall>d. AmountOf (GetCoins (Signers c0 ! j)) d =
                       AmountOf (GetCoins acc) d -
                       (if j = 0 then AmountOf (Amount (Fee ?tx)) d else 0)) \<and>
                (j \<noteq> 0 \<or> IsZero (Amount (Fee ?tx)) \<longrightarrow> GetCoins (Signers c0 ! j) = GetCoins acc))"
    and poor: "abort \<and> K'' = exampleKeepers"
    by blast+
  from fees have 3: "AmountOf (CollectedFees K') ''iris'' = 10"
    by (simp add: exampleKeepers_def exampleTx_def AmountOf_def)
  from ctx obtain c0 where c0: "c = Some c0"
    and first: "\<exists>acc. Accounts exampleKeepers (GetSigners exampleEnv ?tx ! 0) = Some acc \<and>
                (\<forall>d. AmountOf (GetCoins (Signers c0 ! 0)) d =
                       AmountOf (GetCoins acc) d - AmountOf (Amount (Fee ?tx)) d)"
    by (auto simp: exampleEnv_def exampleTx_def)
  from first have 4: "AmountOf (GetCoins (Signers c0 ! 0)) ''iris'' = 90"
    by (auto simp: exampleEnv_def exampleTx_def exampleKeepers_def AmountOf_def)
  from 1 2 3 4 c0 run run' poor show ?thesis by simp
qed

subsection \<open>Sequence increment and replay\<close>

lemma word_succ_neq: "(x :: 64 word) + 1 \<noteq> x"
  by simp

lemma handler_success_store:
  assumes run: "NewAnteHandler env K ctx (StdTxOf tx) sim = Returns c res False K'"
    and wf: "storeWellFormed K"
  shows "\<forall>j<length (GetSigners env tx).
           j < length (Signatures tx) \<and>
           (\<exists>acc acc'. Accounts K (GetSigners env tx ! j) = Some acc \<and>
              Accounts K' (GetSigners env tx ! j) = Some acc' \<and>
              signerOK (BlockHeight ctx) acc (Signatures tx ! j) \<and>
              GetSequence acc' = GetSequence acc + 1 \<and>
              GetAccountNumber acc' = GetAccountNumber acc)"
proof (intro allI impI)
  fix j assume j: "j < length (GetSigners env tx)"
  let ?newCtx = "setGasMeter sim ctx (Gas (Fee tx))"
  let ?addrs = "GetSigners env tx"
  let ?sigs = "Signatures tx"
  from NewAnteHandler_success [OF run] obtain c0 where c: "c = Some c0"
    and body: "anteBody env K ctx ?newCtx tx sim = Return c0 res False K'"
    by blast
  from anteBody_success [OF body] obtain accs accs1 K1 c2 accs2 r where
    signers: "getSignerAccs K ?addrs = Inr accs"
    and valid: "validateAccNumAndSequence ctx accs ?sigs = Inr r" "IsOK r"
    and fee: "deductFeeStage ?newCtx tx accs K = Inr (accs1, K1)"
    and loop: "processSigs_loop env ?newCtx sim ?sigs
       (getSignBytesList env (ChainID ?newCtx) tx ?sigs) 0 accs1 K1 = Inr (c2, accs2, K')"
    by blast
  note S = getSignerAccs_Inr [OF signers]
  note F = deductFeeStage_Inr [OF fee]
  note L = loop_Inr [OF loop]
  from validate_loop_Inr_OK [OF valid [unfolded validateAccNumAndSequence_def]]
  have V: "\<forall>i<length accs. i < length ?sigs \<and> signerOK (BlockHeight ctx) (accs ! i) (?sigs ! i)"
    by simp
  from S j have ja: "j < length accs" by simp
  with V have js: "j < length ?sigs" by simp
  with L F have le: "length ?sigs \<le> length accs" by (cases "length ?sigs") auto
  have "length accs \<le> length ?sigs"
  proof (rule ccontr)
    assume "\<not> length accs \<le> length ?sigs"
    then have "length ?sigs < length accs" by simp
    with V show False by blast
  qed
  with le have eq: "length ?sigs = length accs" by simp
  have each: "\<forall>i<length accs.
      GetAddress (accs2 ! i) = ?addrs ! i \<and>
      GetSequence (accs2 ! i) = GetSequence (accs ! i) + 1 \<and>
      GetAccountNumber (accs2 ! i) = GetAccountNumber (accs ! i)"
  proof (intro allI impI)
    fix i assume i: "i < length accs"
    with S have "Accounts K (?addrs ! i) = Some (accs ! i)" by simp
    with wf have addr: "GetAddress (accs ! i) = ?addrs ! i" by (simp add: storeWellFormed_def)
    have one: "GetAddress (accs1 ! i) = GetAddress (accs ! i) \<and>
               GetSequence (accs1 ! i) = GetSequence (accs ! i) \<and>
               GetAccountNumber (accs1 ! i) = GetAccountNumber (accs ! i)"
    proof (cases "i = 0")
      case True
      with i have "accs \<noteq> []" by auto
      with F obtain coins where "accs1 ! 0 = (accs ! 0)\<lparr>GetCoins := coins\<rparr>" by blast
      with True show ?thesis by simp
    next
      case False
      with F i show ?thesis by simp
    qed
    from L i F eq obtain pk where
      "accs2 ! i = (accs1 ! i)\<lparr>GetPubKey := Some pk, GetSequence := GetSequence (accs1 ! i) + 1\<rparr>"
      by (auto split: if_splits dest!: spec [of _ i])
    with one addr show "GetAddress (accs2 ! i) = ?addrs ! i \<and>
      GetSequence (accs2 ! i) = GetSequence (accs ! i) + 1 \<and>
      GetAccountNumber (accs2 ! i) = GetAccountNumber (accs ! i)" by simp
  qed
  from L F eq have len2: "length accs2 = length accs" by simp
  from L eq len2 have store: "K' = foldl SetAccount K1 accs2" by simp
  from each ja len2 have "?addrs ! j \<in> GetAddress ` set accs2"
    by (metis image_eqI nth_mem)
  from foldl_SetAccount_in [OF this, of K1] store obtain x where
    x: "x \<in> set accs2" "GetAddress x = ?addrs ! j" "Accounts K' (?addrs ! j) = Some x"
    by blast
  from x(1) len2 obtain i where i: "i < length accs" "x = accs2 ! i"
    by (metis in_set_conv_nth)
  with each x(2) have same: "?addrs ! i = ?addrs ! j" by simp
  from S i have "Accounts K (?addrs ! i) = Some (accs ! i)" by simp
  moreover from S ja have stored: "Accounts K (?addrs ! j) = Some (accs ! j)" by simp
  ultimately have "accs ! i = accs ! j" using same by simp
  with each i have "GetSequence x = GetSequence (accs ! j) + 1"
    "GetAccountNumber x = GetAccountNumber (accs ! j)" by simp_all
  with stored x(3) V ja js
  show "j < length ?sigs \<and>
           (\<exists>acc acc'. Accounts K (?addrs ! j) = Some acc \<and>
              Accounts K' (?addrs ! j) = Some acc' \<and>
              signerOK (BlockHeight ctx) acc (?sigs ! j) \<and>
              GetSequence acc' = GetSequence acc + 1 \<and>
              GetAccountNumber acc' = GetAccountNumber acc)"
    by simp
qed

lemma handler_replay:
  assumes run: "NewAnteHandler env K ctx (StdTxOf tx) sim = Returns c res False K'"
    and wf: "storeWellFormed K"
    and ne: "GetSigners env tx \<noteq> []"
  shows "NewAnteHandler env K' ctx (StdTxOf tx) sim =
           Returns (Some (setGasMeter sim ctx (Gas (Fee tx))))
             (ErrInvalidSequence
                (Sprintf ''Invalid sequence. Got %d, expected %d''
                   [UintArg (Sequence (Signatures tx ! 0)),
                    UintArg (Sequence (Signatures tx ! 0) + 1)]))
             True K'"
proof -
  let ?newCtx = "setGasMeter sim ctx (Gas (Fee tx))"
  let ?addrs = "GetSigners env tx"
  let ?sigs = "Signatures tx"
  note St = handler_success_store [OF run wf]
  from NewAnteHandler_success [OF run] have
    pass: "\<not> (IsCheckTx ctx \<and> \<not> sim \<and> \<not> IsOK (ensureSufficientMempoolFees ctx tx))"
    and vb: "ValidateBasic env tx = None"
    by (auto dest: anteBody_success)
  from St have "\<forall>a\<in>set ?addrs. Accounts K' a \<noteq> None"
    by (metis in_set_conv_nth option.distinct(1))
  from getSignerAccs_total [OF this] obtain accsB where
    B: "getSignerAccs K' ?addrs = Inr accsB" by blast
  note SB = getSignerAccs_Inr [OF B]
  from ne have z: "0 < length ?addrs" by simp
  with St obtain acc acc' where
    zs: "0 < length ?sigs"
    and a: "Accounts K' (?addrs ! 0) = Some acc'"
    and ok: "signerOK (BlockHeight ctx) acc (?sigs ! 0)"
    and seq: "GetSequence acc' = GetSequence acc + 1"
    and num: "GetAccountNumber acc' = GetAccountNumber acc"
    by blast
  from SB z a have b0: "accsB ! 0 = acc'" by simp
  from ok have claimed: "Sequence (?sigs ! 0) = GetSequence acc"
    and accnum: "accNumOK (BlockHeight ctx) acc' (?sigs ! 0)"
    using num by (simp_all add: signerOK_def sequenceOK_def accNumOK_def)
  with seq have bad: "\<not> signerOK (BlockHeight ctx) (accsB ! 0) (?sigs ! 0)"
    by (simp add: b0 signerOK_def sequenceOK_def)
  have "validateAccNumAndSequence ctx accsB ?sigs =
          Inr (ErrInvalidSequence (violationMessage (BlockHeight ctx) (accsB ! 0) (?sigs ! 0)))"
    unfolding validateAccNumAndSequence_def
    using z zs SB bad by (intro validate_loop_first) simp_all
  moreover have "violationMessage (BlockHeight ctx) (accsB ! 0) (?sigs ! 0) =
      Sprintf ''Invalid sequence. Got %d, expected %d''
        [UintArg (Sequence (?sigs ! 0)), UintArg (Sequence (?sigs ! 0) + 1)]"
    using accnum seq claimed by (simp add: violationMessage_def b0)
  ultimately have v: "validateAccNumAndSequence ctx accsB ?sigs =
      Inr (ErrInvalidSequence
             (Sprintf ''Invalid sequence. Got %d, expected %d''
                [UintArg (Sequence (?sigs ! 0)), UintArg (Sequence (?sigs ! 0) + 1)]))"
    by simp
  have "anteBody env K' ctx ?newCtx tx sim =
          Return ?newCtx
            (ErrInvalidSequence
               (Sprintf ''Invalid sequence. Got %d, expected %d''
                  [UintArg (Sequence (?sigs ! 0)), UintArg (Sequence (?sigs ! 0) + 1)]))
            True K'"
    unfolding anteBody_def Let_def
    by (simp add: vb B v IsOK_def ErrInvalidSequence_def errResult_def)
  with pass show ?thesis
    by (auto simp: NewAnteHandler_def Let_def recoverOutOfGas_def)
qed

text \<open>
  C5. When \<^verbatim>\<open>processSig\<close> succeeds, the account it returns has the sequence
  incremented by exactly 1 (modulo 2^64, as the unsigned addition of the code), and the
  same address, account number and balance. When the handler succeeds on a store that
  keeps every account under its own address, every signer's claimed sequence was the stored
  sequence N and the account now stored for the signer has sequence N + 1. Running the
  handler again on the same transaction and context against the resulting store is
  rejected with the invalid-sequence error "Got N, expected N + 1" of the first signer,
  and the store is left as it is.
\<close>

theorem processSig_sequence_replay:
  "(processSig env ctx acc sig signBytes sim = Inr (meter, Inr acc') \<longrightarrow>
      GetSequence acc' = GetSequence acc + 1 \<and>
      unat (GetSequence acc') = (unat (GetSequence acc) + 1) mod 2 ^ 64 \<and>
      GetAddress acc' = GetAddress acc \<and> GetAccountNumber acc' = GetAccountNumber acc \<and>
      GetCoins acc' = GetCoins acc)
   \<and> (storeWellFormed K \<and>
        NewAnteHandler env K ctx (StdTxOf tx) sim = Returns c res False K' \<longrightarrow>
        (\<forall>j<length (GetSigners env tx).
           \<exists>stored stored'.
             Accounts K (GetSigners env tx ! j) = Some stored \<and>
             Accounts K' (GetSigners env tx ! j) = Some stored' \<and>
             Sequence (Signatures tx ! j) = GetSequence stored \<and>
             GetSequence stored' = GetSequence stored + 1) \<and>
        (GetSigners env tx \<noteq> [] \<longrightarrow>
           NewAnteHandler env K' ctx (StdTxOf tx) sim =
             Returns (Some (setGasMeter sim ctx (Gas (Fee tx))))
               (ErrInvalidSequence
                  (Sprintf ''Invalid sequence. Got %d, expected %d''
                     [UintArg (Sequence (Signatures tx ! 0)),
                      UintArg (Sequence (Signatures tx ! 0) + 1)]))
               True K'))"
proof -
  have A: "processSig env ctx acc sig signBytes sim = Inr (meter, Inr acc') \<longrightarrow>
      GetSequence acc' = GetSequence acc + 1 \<and>
      unat (GetSequence acc') = (unat (GetSequence acc) + 1) mod 2 ^ 64 \<and>
      GetAddress acc' = GetAddress acc \<and> GetAccountNumber acc' = GetAccountNumber acc \<and>
      GetCoins acc' = GetCoins acc"
  proof
    assume "processSig env ctx acc sig signBytes sim = Inr (meter, Inr acc')"
    from processSig_Inr_Inr [OF this] obtain pk where
      "acc' = acc\<lparr>GetPubKey := Some pk, GetSequence := GetSequence acc + 1\<rparr>" by blast
    then show "GetSequence acc' = GetSequence acc + 1 \<and>
      unat (GetSequence acc') = (unat (GetSequence acc) + 1) mod 2 ^ 64 \<and>
      GetAddress acc' = GetAddress acc \<and> GetAccountNumber acc' = GetAccountNumber acc \<and>
      GetCoins acc' = GetCoins acc"
      by (simp add: unat_word_ariths)
  qed
  have B: "storeWellFormed K \<and>
        NewAnteHandler env K ctx (StdTxOf tx) sim = Returns c res False K' \<longrightarrow>
        (\<forall>j<length (GetSigners env tx).
           \<exists>stored stored'.
             Accounts K (GetSigners env tx ! j) = Some stored \<and>
             Accounts K' (GetSigners env tx ! j) = Some stored' \<and>
             Sequence (Signatures tx ! j) = GetSequence stored \<and>
             GetSequence stored' = GetSequence stored + 1) \<and>
        (GetSigners env tx \<noteq> [] \<longrightarrow>
           NewAnteHandler env K' ctx (StdTxOf tx) sim =
             Returns (Some (setGasMeter sim ctx (Gas (Fee tx))))
               (ErrInvalidSequence
                  (Sprintf ''Invalid sequence. Got %d, expected %d''
                     [UintArg (Sequence (Signatures tx ! 0)),
                      UintArg (Sequence (Signatures tx ! 0) + 1)]))
               True K')"
  proof
    assume h: "storeWellFormed K \<and>
        NewAnteHandler env K ctx (StdTxOf tx) sim = Returns c res False K'"
    then have wf: "storeWellFormed K"
      and run: "NewAnteHandler env K ctx (StdTxOf tx) sim = Returns c res False K'" by simp_all
    have B1: "\<forall>j<length (GetSigners env tx).
           \<exists>stored stored'.
             Accounts K (GetSigners env tx ! j) = Some stored \<and>
             Accounts K' (GetSigners env tx ! j) = Some stored' \<and>
             Sequence (Signatures tx ! j) = GetSequence stored \<and>
             GetSequence stored' = GetSequence stored + 1"
      using handler_success_store [OF run wf]
      by (fastforce simp: signerOK_def sequenceOK_def)
    have B2: "GetSigners env tx \<noteq> [] \<longrightarrow>
           NewAnteHandler env K' ctx (StdTxOf tx) sim =
             Returns (Some (setGasMeter sim ctx (Gas (Fee tx))))
               (ErrInvalidSequence
                  (Sprintf ''Invalid sequence. Got %d, expected %d''
                     [UintArg (Sequence (Signatures tx ! 0)),
                      UintArg (Sequence (Signatures tx ! 0) + 1)]))
               True K'"
      using handler_replay [OF run wf] by blast
    from B1 B2 show "(\<forall>j<length (GetSigners env tx).
           \<exists>stored stored'.
             Accounts K (GetSigners env tx ! j) = Some stored \<and>
             Accounts K' (GetSigners env tx ! j) = Some stored' \<and>
             Sequence (Signatures tx ! j) = GetSequence stored \<and>
             GetSequence stored' = GetSequence stored + 1) \<and>
        (GetSigners env tx \<noteq> [] \<longrightarrow>
           NewAnteHandler env K' ctx (StdTxOf tx) sim =
             Returns (Some (setGasMeter sim ctx (Gas (Fee tx))))
               (ErrInvalidSequence
                  (Sprintf ''Invalid sequence. Got %d, expected %d''
                     [UintArg (Sequence (Signatures tx ! 0)),
                      UintArg (Sequence (Signatures tx ! 0) + 1)]))
               True K')"
      by (intro conjI)
  qed
  from A B show ?thesis by (intro conjI)
qed

theorem processSig_sequence_replay_witness:
  "(case NewAnteHandler exampleEnv exampleKeepers exampleContext (StdTxOf (exampleTx [0, 3])) False of
      Returns c res abort K' \<Rightarrow>
        \<not> abort \<and>
        (case Accounts K' [1] of Some stored' \<Rightarrow> GetSequence stored' = 4 | None \<Rightarrow> False) \<and>
        NewAnteHandler exampleEnv K' exampleContext (StdTxOf (exampleTx [0, 3])) False =
          Returns (Some (setGasMeter False exampleContext 50000))
            (ErrInvalidSequence
               (Sprintf ''Invalid sequence. Got %d, expected %d'' [UintArg 3, UintArg 4]))
            True K'
    | Panics p K' \<Rightarrow> False)"
proof -
  from handler_run_value obtain c res K' where
    run: "NewAnteHandler exampleEnv exampleKeepers exampleContext (StdTxOf (exampleTx [0, 3])) False
            = Returns c res False K'"
    by (cases "NewAnteHandler exampleEnv exampleKeepers exampleContext (StdTxOf (exampleTx [0, 3])) False")
       auto
  have wf: "storeWellFormed exampleKeepers"
    by (simp add: storeWellFormed_def exampleKeepers_def)
  have signers: "GetSigners exampleEnv (exampleTx [0, 3]) = [[1]]"
    by (simp add: exampleEnv_def exampleTx_def)
  from processSig_sequence_replay [of exampleEnv exampleContext undefined undefined undefined False
      undefined undefined exampleKeepers "exampleTx [0, 3]" c res K'] wf run signers
  have stored: "\<exists>stored stored'.
             Accounts exampleKeepers [1] = Some stored \<and>
             Accounts K' [1] = Some stored' \<and>
             GetSequence stored' = GetSequence stored + 1"
    and replay: "NewAnteHandler exampleEnv K' exampleContext (StdTxOf (exampleTx [0, 3])) False =
             Returns (Some (setGasMeter False exampleContext (Gas (Fee (exampleTx [0, 3])))))
               (ErrInvalidSequence
                  (Sprintf ''Invalid sequence. Got %d, expected %d''
                     [UintArg (Sequence (Signatures (exampleTx [0, 3]) ! 0)),
                      UintArg (Sequence (Signatures (exampleTx [0, 3]) ! 0) + 1)]))
               True K'"
    by auto
  from stored have "case Accounts K' [1] of Some stored' \<Rightarrow> GetSequence stored' = 4 | None \<Rightarrow> False"
    by (auto simp: exampleKeepers_def)
  with run replay show ?thesis
    by (simp add: exampleTx_def)
qed

subsection \<open>The recovery boundary\<close>

lemma recoverOutOfGas_Panics:
  "recoverOutOfGas env tx out = Panics p K' \<Longrightarrow>
   (\<exists>c. out = Panic p c K') \<and> (\<forall>d. p \<noteq> ErrorOutOfGas d)"
  by (auto simp: recoverOutOfGas_def split: outcome.splits panic.splits)

lemma NewAnteHandler_Panics:
  assumes "NewAnteHandler env K ctx tx sim = Panics p K'"
  shows "(\<forall>d. p \<noteq> ErrorOutOfGas d) \<and>
         (\<exists>stdTx c. tx = StdTxOf stdTx \<and>
            anteBody env K ctx (setGasMeter sim ctx (Gas (Fee stdTx))) stdTx sim = Panic p c K')"
proof (cases tx)
  case OtherTx
  with assms show ?thesis by (simp add: NewAnteHandler_def)
next
  case (StdTxOf stdTx)
  with assms have "recoverOutOfGas env stdTx
      (anteBody env K ctx (setGasMeter sim ctx (Gas (Fee stdTx))) stdTx sim) = Panics p K'"
    by (auto simp: NewAnteHandler_def Let_def split: if_splits)
  from recoverOutOfGas_Panics [OF this] StdTxOf show ?thesis by blast
qed

text \<open>
  C2. The deferred recovery of the handler catches exactly the out-of-gas panic. When the
  code that runs after the gas meter is installed raises it, the handler returns, with
  abort set, the out-of-gas error result whose gas wanted is the declared gas limit and
  whose gas used is read from the installed meter as the panic left it; the returned
  context is the one with the installed meter. Any other panic of that code propagates
  out of the handler unchanged; the handler never lets an out-of-gas panic out, and every
  panic that leaves it is a panic of that code.
\<close>

theorem NewAnteHandler_recovers_only_out_of_gas:
  "(\<not> (IsCheckTx ctx \<and> \<not> sim \<and> \<not> IsOK (ensureSufficientMempoolFees ctx tx)) \<and>
      anteBody env K ctx (setGasMeter sim ctx (Gas (Fee tx))) tx sim
        = Panic (ErrorOutOfGas d) c K' \<longrightarrow>
      NewAnteHandler env K ctx (StdTxOf tx) sim =
        Returns (Some c)
          ((ErrOutOfGas (Sprintf ''out of gas in location: %v'' [StringArg d]))
             \<lparr>GasWanted := Gas (Fee tx), GasUsed := GasConsumed env (GasMeter c)\<rparr>)
          True K' \<and>
      c = (setGasMeter sim ctx (Gas (Fee tx)))\<lparr>GasMeter := GasMeter c\<rparr>)
   \<and> Code (ErrOutOfGas m) = CodeOutOfGas
   \<and> (\<not> (IsCheckTx ctx \<and> \<not> sim \<and> \<not> IsOK (ensureSufficientMempoolFees ctx tx)) \<and>
        anteBody env K ctx (setGasMeter sim ctx (Gas (Fee tx))) tx sim = Panic p c K' \<and>
        (\<forall>d. p \<noteq> ErrorOutOfGas d) \<longrightarrow>
        NewAnteHandler env K ctx (StdTxOf tx) sim = Panics p K')
   \<and> NewAnteHandler env K ctx tx' sim \<noteq> Panics (ErrorOutOfGas d') K''
   \<and> (NewAnteHandler env K ctx tx' sim = Panics p' K'' \<longrightarrow>
        (\<exists>stdTx c. tx' = StdTxOf stdTx \<and>
           anteBody env K ctx (setGasMeter sim ctx (Gas (Fee stdTx))) stdTx sim = Panic p' c K''))"
proof -
  have A: "\<not> (IsCheckTx ctx \<and> \<not> sim \<and> \<not> IsOK (ensureSufficientMempoolFees ctx tx)) \<and>
      anteBody env K ctx (setGasMeter sim ctx (Gas (Fee tx))) tx sim
        = Panic (ErrorOutOfGas d) c K' \<longrightarrow>
      NewAnteHandler env K ctx (StdTxOf tx) sim =
        Returns (Some c)
          ((ErrOutOfGas (Sprintf ''out of gas in location: %v'' [StringArg d]))
             \<lparr>GasWanted := Gas (Fee tx), GasUsed := GasConsumed env (GasMeter c)\<rparr>)
          True K' \<and>
      c = (setGasMeter sim ctx (Gas (Fee tx)))\<lparr>GasMeter := GasMeter c\<rparr>"
    by (auto simp: NewAnteHandler_def Let_def recoverOutOfGas_def dest: anteBody_Panic)
  have B: "Code (ErrOutOfGas m) = CodeOutOfGas"
    by (simp add: ErrOutOfGas_def errResult_def)
  have C: "\<not> (IsCheckTx ctx \<and> \<not> sim \<and> \<not> IsOK (ensureSufficientMempoolFees ctx tx)) \<and>
        anteBody env K ctx (setGasMeter sim ctx (Gas (Fee tx))) tx sim = Panic p c K' \<and>
        (\<forall>d. p \<noteq> ErrorOutOfGas d) \<longrightarrow>
        NewAnteHandler env K ctx (StdTxOf tx) sim = Panics p K'"
    by (cases p) (auto simp: NewAnteHandler_def Let_def recoverOutOfGas_def)
  have D: "NewAnteHandler env K ctx tx' sim \<noteq> Panics (ErrorOutOfGas d') K''"
    using NewAnteHandler_Panics [of env K ctx tx' sim "ErrorOutOfGas d'" K''] by blast
  have E: "NewAnteHandler env K ctx tx' sim = Panics p' K'' \<longrightarrow>
        (\<exists>stdTx c. tx' = StdTxOf stdTx \<and>
           anteBody env K ctx (setGasMeter sim ctx (Gas (Fee stdTx))) stdTx sim = Panic p' c K'')"
    using NewAnteHandler_Panics [of env K ctx tx' sim p' K''] by blast
  from A B C D E show ?thesis by (intro conjI)
qed

lemma body_out_of_gas_value:
  "(case anteBody exampleEnv exampleKeepers exampleContext (setGasMeter False exampleContext 50)
           ((exampleTx [0, 3])\<lparr>Fee := \<lparr>Amount = [(''iris'', 10)], Gas = 50\<rparr>\<rparr>) False of
      Panic p c K' \<Rightarrow>
        p = ErrorOutOfGas ''ante verify: secp256k1'' \<and>
        GasMeter c = gasMeterWithBase 50 100 (102 / 100) 285
    | Return c res abort K' \<Rightarrow> False)"
  by code_simp

lemma body_other_panic_value:
  "(case anteBody exampleEnv exampleMultisigKeepers exampleContext
           (setGasMeter False exampleContext 50000) (exampleTx [3, 1, 0, 1, 1, 7]) False of
      Panic p c K' \<Rightarrow> p = IndexOutOfRange
    | Return c res abort K' \<Rightarrow> False)"
  by code_simp

theorem NewAnteHandler_recovers_only_out_of_gas_witness:
  "(case NewAnteHandler exampleEnv exampleKeepers exampleContext
           (StdTxOf ((exampleTx [0, 3])\<lparr>Fee := \<lparr>Amount = [(''iris'', 10)], Gas = 50\<rparr>\<rparr>)) False of
      Returns c res abort K' \<Rightarrow>
        abort \<and>
        res = (ErrOutOfGas
                 (Sprintf ''out of gas in location: %v'' [StringArg ''ante verify: secp256k1'']))
                \<lparr>GasWanted := 50, GasUsed := 100\<rparr> \<and>
        (case c of
           Some c0 \<Rightarrow> GasMeter c0 = gasMeterWithBase 50 100 (102 / 100) 285
         | None \<Rightarrow> False)
    | Panics p K' \<Rightarrow> False)
   \<and> (case NewAnteHandler exampleEnv exampleMultisigKeepers exampleContext
             (StdTxOf (exampleTx [3, 1, 0, 1, 1, 7])) False of
        Returns c res abort K' \<Rightarrow> False
      | Panics p K' \<Rightarrow> p = IndexOutOfRange)"
proof -
  let ?low = "(exampleTx [0, 3])\<lparr>Fee := \<lparr>Amount = [(''iris'', 10)], Gas = 50\<rparr>\<rparr>"
  let ?bad = "exampleTx [3, 1, 0, 1, 1, 7]"
  have gas: "Gas (Fee ?low) = 50" "Gas (Fee ?bad) = 50000"
    by (simp_all add: exampleTx_def)
  have mode: "\<not> IsCheckTx exampleContext"
    by (simp add: exampleContext_def)
  from body_out_of_gas_value obtain c K' where
    oog: "anteBody exampleEnv exampleKeepers exampleContext (setGasMeter False exampleContext 50)
            ?low False = Panic (ErrorOutOfGas ''ante verify: secp256k1'') c K'"
    and meter: "GasMeter c = gasMeterWithBase 50 100 (102 / 100) 285"
    by (cases "anteBody exampleEnv exampleKeepers exampleContext
                 (setGasMeter False exampleContext 50) ?low False") auto
  from body_other_panic_value obtain c2 K2 where
    other: "anteBody exampleEnv exampleMultisigKeepers exampleContext
              (setGasMeter False exampleContext 50000) ?bad False = Panic IndexOutOfRange c2 K2"
    by (cases "anteBody exampleEnv exampleMultisigKeepers exampleContext
                 (setGasMeter False exampleContext 50000) ?bad False") auto
  from NewAnteHandler_recovers_only_out_of_gas
         [of exampleContext False ?low exampleEnv exampleKeepers "''ante verify: secp256k1''" c K']
       oog mode gas
  have 1: "NewAnteHandler exampleEnv exampleKeepers exampleContext (StdTxOf ?low) False =
        Returns (Some c)
          ((ErrOutOfGas
              (Sprintf ''out of gas in location: %v'' [StringArg ''ante verify: secp256k1'']))
             \<lparr>GasWanted := 50, GasUsed := GasConsumed exampleEnv (GasMeter c)\<rparr>)
          True K'"
    by simp
  from NewAnteHandler_recovers_only_out_of_gas
         [of exampleContext False ?bad exampleEnv exampleMultisigKeepers _ c2 K2 _ IndexOutOfRange]
       other mode gas
  have 2: "NewAnteHandler exampleEnv exampleMultisigKeepers exampleContext (StdTxOf ?bad) False
             = Panics IndexOutOfRange K2"
    by simp
  from 1 2 meter show ?thesis by simp
qed

end
